theory Spec2Isabelle
  imports Main "HOL-Library.Word" "HOL-Library.Sublist" "HOL-Library.Char_ord"
    "HOL-Library.List_Lexorder" "HOL-Library.Multiset"
begin

unbundle bit_operations_syntax

section \<open>File modes and permission strings\<close>

text \<open>
  \<open>mode_t\<close> is an unsigned 32-bit integer on Linux.  The bit masks below are the values
  of \<open>sys/stat.h\<close> (octal in the header, hexadecimal here): the repository uses them
  through the macros \<open>S_ISDIR\<close>, \<open>S_IRUSR\<close>, ... and does not define them itself.
\<close>

type_synonym mode_t = "32 word"

definition S_IFMT :: mode_t where "S_IFMT = 0xF000"     \<comment> \<open>0170000\<close>
definition S_IFSOCK :: mode_t where "S_IFSOCK = 0xC000" \<comment> \<open>0140000\<close>
definition S_IFLNK :: mode_t where "S_IFLNK = 0xA000"   \<comment> \<open>0120000\<close>
definition S_IFREG :: mode_t where "S_IFREG = 0x8000"   \<comment> \<open>0100000\<close>
definition S_IFBLK :: mode_t where "S_IFBLK = 0x6000"   \<comment> \<open>0060000\<close>
definition S_IFDIR :: mode_t where "S_IFDIR = 0x4000"   \<comment> \<open>0040000\<close>
definition S_IFCHR :: mode_t where "S_IFCHR = 0x2000"   \<comment> \<open>0020000\<close>
definition S_IFIFO :: mode_t where "S_IFIFO = 0x1000"   \<comment> \<open>0010000\<close>
definition S_ISUID :: mode_t where "S_ISUID = 0x800"    \<comment> \<open>04000\<close>
definition S_ISGID :: mode_t where "S_ISGID = 0x400"    \<comment> \<open>02000\<close>
definition S_ISVTX :: mode_t where "S_ISVTX = 0x200"    \<comment> \<open>01000\<close>
definition S_IRUSR :: mode_t where "S_IRUSR = 0x100"    \<comment> \<open>0400\<close>
definition S_IWUSR :: mode_t where "S_IWUSR = 0x80"     \<comment> \<open>0200\<close>
definition S_IXUSR :: mode_t where "S_IXUSR = 0x40"     \<comment> \<open>0100\<close>
definition S_IRGRP :: mode_t where "S_IRGRP = 0x20"     \<comment> \<open>040\<close>
definition S_IWGRP :: mode_t where "S_IWGRP = 0x10"     \<comment> \<open>020\<close>
definition S_IXGRP :: mode_t where "S_IXGRP = 0x8"      \<comment> \<open>010\<close>
definition S_IROTH :: mode_t where "S_IROTH = 0x4"      \<comment> \<open>04\<close>
definition S_IWOTH :: mode_t where "S_IWOTH = 0x2"      \<comment> \<open>02\<close>
definition S_IXOTH :: mode_t where "S_IXOTH = 0x1"      \<comment> \<open>01\<close>

definition S_ISDIR :: "mode_t \<Rightarrow> bool" where "S_ISDIR m = (m AND S_IFMT = S_IFDIR)"
definition S_ISLNK :: "mode_t \<Rightarrow> bool" where "S_ISLNK m = (m AND S_IFMT = S_IFLNK)"
definition S_ISFIFO :: "mode_t \<Rightarrow> bool" where "S_ISFIFO m = (m AND S_IFMT = S_IFIFO)"
definition S_ISSOCK :: "mode_t \<Rightarrow> bool" where "S_ISSOCK m = (m AND S_IFMT = S_IFSOCK)"
definition S_ISCHR :: "mode_t \<Rightarrow> bool" where "S_ISCHR m = (m AND S_IFMT = S_IFCHR)"
definition S_ISBLK :: "mode_t \<Rightarrow> bool" where "S_ISBLK m = (m AND S_IFMT = S_IFBLK)"

text \<open>The C test \<open>mode & MASK\<close> used as a condition: the masked value is not zero.\<close>

definition has_bit :: "mode_t \<Rightarrow> mode_t \<Rightarrow> bool" where
  "has_bit mode flag = (mode AND flag \<noteq> 0)"

text \<open>
  \<open>permissions_to_string\<close> of \<open>Core/file_utils.c\<close>: ten characters are written
  one by one, then the special bits overwrite positions 3, 6 and 9.
\<close>

definition permissions_to_string :: "mode_t \<Rightarrow> string" where
  "permissions_to_string mode =
    (let str0 =
       [ if S_ISDIR mode then CHR ''d'' else if S_ISLNK mode then CHR ''l''
         else if S_ISFIFO mode then CHR ''p'' else if S_ISSOCK mode then CHR ''s''
         else if S_ISCHR mode then CHR ''c'' else if S_ISBLK mode then CHR ''b'' else CHR ''-'',
         if has_bit mode S_IRUSR then CHR ''r'' else CHR ''-'',
         if has_bit mode S_IWUSR then CHR ''w'' else CHR ''-'',
         if has_bit mode S_IXUSR then CHR ''x'' else CHR ''-'',
         if has_bit mode S_IRGRP then CHR ''r'' else CHR ''-'',
         if has_bit mode S_IWGRP then CHR ''w'' else CHR ''-'',
         if has_bit mode S_IXGRP then CHR ''x'' else CHR ''-'',
         if has_bit mode S_IROTH then CHR ''r'' else CHR ''-'',
         if has_bit mode S_IWOTH then CHR ''w'' else CHR ''-'',
         if has_bit mode S_IXOTH then CHR ''x'' else CHR ''-'' ];
       str1 = (if has_bit mode S_ISUID
               then str0[3 := (if has_bit mode S_IXUSR then CHR ''s'' else CHR ''S'')] else str0);
       str2 = (if has_bit mode S_ISGID
               then str1[6 := (if has_bit mode S_IXGRP then CHR ''s'' else CHR ''S'')] else str1);
       str3 = (if has_bit mode S_ISVTX
               then str2[9 := (if has_bit mode S_IXOTH then CHR ''t'' else CHR ''T'')] else str2)
     in str3)"

text \<open>
  \<open>FileNavigator::get_permissions_string\<close> of \<open>navigator.cpp\<close>: the string starts as
  ten dashes, every position is assigned, then the special bits overwrite 3, 6 and 9.
\<close>

definition nav_get_permissions_string :: "mode_t \<Rightarrow> string" where
  "nav_get_permissions_string mode =
    (let perms = replicate 10 (CHR ''-'');
       perms = perms[0 := (if S_ISDIR mode then CHR ''d'' else if S_ISLNK mode then CHR ''l''
         else if S_ISFIFO mode then CHR ''p'' else if S_ISSOCK mode then CHR ''s''
         else if S_ISCHR mode then CHR ''c'' else if S_ISBLK mode then CHR ''b'' else CHR ''-'')];
       perms = perms[1 := (if has_bit mode S_IRUSR then CHR ''r'' else CHR ''-'')];
       perms = perms[2 := (if has_bit mode S_IWUSR then CHR ''w'' else CHR ''-'')];
       perms = perms[3 := (if has_bit mode S_IXUSR then CHR ''x'' else CHR ''-'')];
       perms = perms[4 := (if has_bit mode S_IRGRP then CHR ''r'' else CHR ''-'')];
       perms = perms[5 := (if has_bit mode S_IWGRP then CHR ''w'' else CHR ''-'')];
       perms = perms[6 := (if has_bit mode S_IXGRP then CHR ''x'' else CHR ''-'')];
       perms = perms[7 := (if has_bit mode S_IROTH then CHR ''r'' else CHR ''-'')];
       perms = perms[8 := (if has_bit mode S_IWOTH then CHR ''w'' else CHR ''-'')];
       perms = perms[9 := (if has_bit mode S_IXOTH then CHR ''x'' else CHR ''-'')];
       perms = (if has_bit mode S_ISUID
                then perms[3 := (if has_bit mode S_IXUSR then CHR ''s'' else CHR ''S'')] else perms);
       perms = (if has_bit mode S_ISGID
                then perms[6 := (if has_bit mode S_IXGRP then CHR ''s'' else CHR ''S'')] else perms);
       perms = (if has_bit mode S_ISVTX
                then perms[9 := (if has_bit mode S_IXOTH then CHR ''t'' else CHR ''T'')] else perms)
     in perms)"

text \<open>
  \<open>get_permissions_string\<close> of \<open>Core/file_ops.c\<close>, the string that it writes to its
  buffer: only \<open>d\<close>, \<open>l\<close> and \<open>-\<close> as type characters, and no code for the setuid, setgid
  and sticky bits.
\<close>

definition get_permissions_string :: "mode_t \<Rightarrow> string" where
  "get_permissions_string mode =
     [ if S_ISDIR mode then CHR ''d'' else if S_ISLNK mode then CHR ''l'' else CHR ''-'',
       if has_bit mode S_IRUSR then CHR ''r'' else CHR ''-'',
       if has_bit mode S_IWUSR then CHR ''w'' else CHR ''-'',
       if has_bit mode S_IXUSR then CHR ''x'' else CHR ''-'',
       if has_bit mode S_IRGRP then CHR ''r'' else CHR ''-'',
       if has_bit mode S_IWGRP then CHR ''w'' else CHR ''-'',
       if has_bit mode S_IXGRP then CHR ''x'' else CHR ''-'',
       if has_bit mode S_IROTH then CHR ''r'' else CHR ''-'',
       if has_bit mode S_IWOTH then CHR ''w'' else CHR ''-'',
       if has_bit mode S_IXOTH then CHR ''x'' else CHR ''-'' ]"

text \<open>
  The format the specification describes, written from its words: a type character, then
  one triplet per class; the execute position of a triplet shows the special bit of its
  class as a lower-case letter when the execute bit is set too and as a capital otherwise.
\<close>

definition exec_char :: "bool \<Rightarrow> bool \<Rightarrow> char \<Rightarrow> char \<Rightarrow> char" where
  "exec_char special x lower upper =
     (if special then (if x then lower else upper) else (if x then CHR ''x'' else CHR ''-''))"

definition triplet :: "bool \<Rightarrow> bool \<Rightarrow> bool \<Rightarrow> bool \<Rightarrow> char \<Rightarrow> char \<Rightarrow> string" where
  "triplet r w x special lower upper =
     [if r then CHR ''r'' else CHR ''-'', if w then CHR ''w'' else CHR ''-'',
      exec_char special x lower upper]"

definition type_char :: "mode_t \<Rightarrow> char" where
  "type_char mode =
     (if S_ISDIR mode then CHR ''d'' else if S_ISLNK mode then CHR ''l''
      else if S_ISFIFO mode then CHR ''p'' else if S_ISSOCK mode then CHR ''s''
      else if S_ISCHR mode then CHR ''c'' else if S_ISBLK mode then CHR ''b'' else CHR ''-'')"

definition shell_style_permissions :: "mode_t \<Rightarrow> string" where
  "shell_style_permissions mode =
     type_char mode #
     triplet (has_bit mode S_IRUSR) (has_bit mode S_IWUSR) (has_bit mode S_IXUSR)
       (has_bit mode S_ISUID) (CHR ''s'') (CHR ''S'') @
     triplet (has_bit mode S_IRGRP) (has_bit mode S_IWGRP) (has_bit mode S_IXGRP)
       (has_bit mode S_ISGID) (CHR ''s'') (CHR ''S'') @
     triplet (has_bit mode S_IROTH) (has_bit mode S_IWOTH) (has_bit mode S_IXOTH)
       (has_bit mode S_ISVTX) (CHR ''t'') (CHR ''T'')"

section \<open>Path normalisation (\<open>normalize_path\<close> of \<open>Core/file_utils.c\<close>)\<close>

text \<open>\<open>PATH_MAX\<close> and \<open>NAME_MAX\<close> are the values of \<open>linux/limits.h\<close>.\<close>

definition PATH_MAX :: nat where "PATH_MAX = 4096"
definition NAME_MAX :: nat where "NAME_MAX = 255"

text \<open>
  A C string argument is the bytes up to the first NUL of the buffer it points to;
  \<open>strncpy (temp, path, n)\<close> followed by \<open>temp[n] = 0\<close> keeps at most \<open>n\<close> of them.
\<close>

definition strncpy_m :: "string \<Rightarrow> nat \<Rightarrow> string" where
  "strncpy_m src n = take n (takeWhile (\<lambda>c. c \<noteq> CHR 0x00) src)"

text \<open>
  The successive results of \<open>strtok (temp, "/")\<close>, \<open>strtok (NULL, "/")\<close>, ...: leading
  delimiters are skipped, a token runs to the next delimiter, and the scan goes on behind it.
  A token is never empty.
\<close>

function strtok_all :: "string \<Rightarrow> string list" where
  "strtok_all s =
     (case dropWhile (\<lambda>c. c = CHR ''/'') s of
        [] \<Rightarrow> []
      | c # cs \<Rightarrow> (c # takeWhile (\<lambda>d. d \<noteq> CHR ''/'') cs)
                 # strtok_all (dropWhile (\<lambda>d. d \<noteq> CHR ''/'') cs))"
  by pat_completeness auto
termination
proof (relation "measure length")
  show "wf (measure length)" by simp
next
  fix s :: string and c cs
  assume a: "dropWhile (\<lambda>c. c = CHR ''/'') s = c # cs"
  have "length (dropWhile (\<lambda>d. d \<noteq> CHR ''/'') cs) \<le> length cs"
    by (rule length_dropWhile_le)
  also have "length cs < length (dropWhile (\<lambda>c. c = CHR ''/'') s)"
    by (simp add: a)
  also have "\<dots> \<le> length s"
    by (rule length_dropWhile_le)
  finally show "(dropWhile (\<lambda>d. d \<noteq> CHR ''/'') cs, s) \<in> measure length"
    by simp
qed

declare strtok_all.simps [simp del]

text \<open>
  The \<open>while\<close> loop over the tokens.  \<open>comps\<close> is \<open>components[0 .. comp_count)\<close>: the
  loop stops when 256 components are stored, \<open>..\<close> drops the last stored component (if
  there is one), \<open>.\<close> is skipped and every other token is stored.
\<close>

fun collect_components :: "string list \<Rightarrow> string list \<Rightarrow> string list" where
  "collect_components comps [] = comps"
| "collect_components comps (token # rest) =
     (if length comps < 256 then
        (if token = ''..'' then
           collect_components (if 0 < length comps then butlast comps else comps) rest
         else if token \<noteq> ''.'' \<and> 0 < length token then
           collect_components (comps @ [token]) rest
         else collect_components comps rest)
      else comps)"

text \<open>\<open>strncat (dest, src, n)\<close> appends at most \<open>n\<close> bytes of \<open>src\<close>.\<close>

definition strncat_m :: "string \<Rightarrow> string \<Rightarrow> nat \<Rightarrow> string" where
  "strncat_m dest src n = dest @ take n src"

text \<open>
  The \<open>for\<close> loop that assembles the result; \<open>i\<close> is the loop index, so the separator is
  added before every component but the first.  The bound \<open>size - strlen (result) - 1\<close> is
  computed in \<open>size_t\<close>; it does not wrap as long as \<open>size\<close> is at least 1, which is the
  case modelled here (with \<open>size = 0\<close> the code writes outside the buffer).
\<close>

fun assemble :: "nat \<Rightarrow> string \<Rightarrow> nat \<Rightarrow> string list \<Rightarrow> string" where
  "assemble bufsize result i [] = result"
| "assemble bufsize result i (component # rest) =
     (let r1 = (if 0 < i then strncat_m result ''/'' (bufsize - length result - 1) else result);
          r2 = strncat_m r1 component (bufsize - length r1 - 1)
      in assemble bufsize r2 (Suc i) rest)"

definition unbackslash :: "char \<Rightarrow> char" where
  "unbackslash c = (if c = CHR 0x5C then CHR ''/'' else c)"

definition normalize_components :: "string \<Rightarrow> string list" where
  "normalize_components path =
     collect_components [] (strtok_all (map unbackslash (strncpy_m path (PATH_MAX - 1))))"

text \<open>
  \<open>normalize_path (path, result, bufsize)\<close>; the value is the string left in \<open>result\<close>, a
  buffer of \<open>bufsize\<close> bytes (the parameter \<open>size\<close>).
\<close>

definition normalize_path :: "string \<Rightarrow> nat \<Rightarrow> string" where
  "normalize_path path bufsize =
     (let result = assemble bufsize [] 0 (normalize_components path)
      in if result = [] then strncpy_m ''.'' (bufsize - 1) else result)"

subsection \<open>Components and joins\<close>

text \<open>Splitting at every \<open>/\<close>, empty components kept: what a reader of a path sees.\<close>

fun split_slash :: "string \<Rightarrow> string list" where
  "split_slash [] = [[]]"
| "split_slash (c # cs) =
     (if c = CHR ''/'' then [] # split_slash cs
      else (case split_slash cs of [] \<Rightarrow> [[c]] | w # ws \<Rightarrow> (c # w) # ws))"

fun join_slash :: "string list \<Rightarrow> string" where
  "join_slash [] = []"
| "join_slash (c # cs) = c @ concat (map (\<lambda>d. CHR ''/'' # d) cs)"

definition plain_component :: "string \<Rightarrow> bool" where
  "plain_component c = (c \<noteq> [] \<and> c \<noteq> ''.'' \<and> c \<noteq> ''..'' \<and> CHR ''/'' \<notin> set c)"

definition weight :: "string list \<Rightarrow> nat" where
  "weight cs = sum_list (map (\<lambda>c. Suc (length c)) cs)"

subsection \<open>What the specification says of \<open>normalize\<close>\<close>

text \<open>
  The components of a path, as the specification reads it: the separators are unified
  (a backslash counts as \<open>/\<close>) and the components are the non-empty pieces between them.
\<close>

definition path_components :: "string \<Rightarrow> string list" where
  "path_components p = filter (\<lambda>c. c \<noteq> []) (split_slash (map unbackslash p))"

text \<open>
  \<open>.\<close> segments are collapsed and \<open>..\<close> segments are resolved structurally: \<open>..\<close>
  cancels the component kept last (and is dropped when none is kept).  All components
  of \<open>p\<close> cancel out when \<open>cancel_dots [] (path_components p) = []\<close>.
\<close>

fun cancel_dots :: "string list \<Rightarrow> string list \<Rightarrow> string list" where
  "cancel_dots kept [] = kept"
| "cancel_dots kept (c # cs) =
     (if c = ''.'' then cancel_dots kept cs
      else if c = ''..'' then cancel_dots (butlast kept) cs
      else cancel_dots (kept @ [c]) cs)"

text \<open>A path of 256 components \<open>a\<close> followed by 256 components \<open>..\<close>.\<close>

definition many_levels :: string where
  "many_levels = concat (replicate 256 ''a/'') @ concat (replicate 256 ''../'')"

section \<open>Path safety (\<open>is_safe_path\<close> of \<open>Core/file_utils.c\<close>)\<close>

text \<open>
  What the operating system answers to the queries of the read-only functions: the
  functions below take these answers as an argument.
\<close>

record stat =
  st_mode :: mode_t
  st_size :: int
  st_mtime :: int
  st_uid :: nat
  st_gid :: nat

record os_env =
  realpath :: "string \<Rightarrow> string option"       \<comment> \<open>\<open>None\<close>: \<open>realpath\<close> returned \<open>NULL\<close>\<close>
  lstat :: "string \<Rightarrow> stat option"              \<comment> \<open>\<open>None\<close>: \<open>lstat\<close> returned non-zero\<close>
  readdir_names :: "string \<Rightarrow> string list option" \<comment> \<open>\<open>None\<close>: \<open>opendir\<close> returned \<open>NULL\<close>;
      otherwise the names \<open>readdir\<close> yields, in its order, \<open>.\<close> and \<open>..\<close> among them\<close>
  readlink :: "string \<Rightarrow> string option"          \<comment> \<open>\<open>None\<close>: \<open>readlink\<close> returned -1\<close>
  getpwuid :: "nat \<Rightarrow> string option"
  getgrgid :: "nat \<Rightarrow> string option"
  time_to_string :: "int \<Rightarrow> string"               \<comment> \<open>\<open>localtime\<close> and \<open>strftime\<close>\<close>

text \<open>\<open>strstr (haystack, needle) != NULL\<close>.\<close>

fun strstr_m :: "string \<Rightarrow> string \<Rightarrow> bool" where
  "strstr_m [] needle = (needle = [])"
| "strstr_m (c # cs) needle = (take (length needle) (c # cs) = needle \<or> strstr_m cs needle)"

text \<open>
  \<open>char\<close> is signed on the Linux targets of this code, so the test \<open>*p < 32\<close> holds for
  the control characters and for every byte from 128 on.
\<close>

definition char_lt_32 :: "char \<Rightarrow> bool" where
  "char_lt_32 c = ((of_char c :: nat) < 32 \<or> 128 \<le> (of_char c :: nat))"

text \<open>
  The inner part of \<open>has_dangerous_chars\<close>: the \<open>while\<close> loop cuts the path at each
  \<open>/\<close> (found by \<open>strchr\<close>), copies a component of length between 1 and \<open>NAME_MAX - 1\<close>
  and looks for a \<open>/\<close> in it; the part behind the last \<open>/\<close> is searched the same way.
\<close>

function scan_components :: "string \<Rightarrow> bool" where
  "scan_components start =
     (if CHR ''/'' \<in> set start then
        (let component = takeWhile (\<lambda>c. c \<noteq> CHR ''/'') start; len = length component in
         if 0 < len \<and> len < NAME_MAX \<and> list_ex (\<lambda>c. c = CHR ''/'') component then True
         else scan_components (tl (dropWhile (\<lambda>c. c \<noteq> CHR ''/'') start)))
      else list_ex (\<lambda>c. c = CHR ''/'') start)"
  by pat_completeness auto
termination
proof (relation "measure length")
  show "wf (measure length)" by simp
next
  fix start :: string
  assume "CHR ''/'' \<in> set start"
  then have ne: "dropWhile (\<lambda>c. c \<noteq> CHR ''/'') start \<noteq> []"
    by (simp add: dropWhile_eq_Nil_conv)
  have "length (tl (dropWhile (\<lambda>c. c \<noteq> CHR ''/'') start))
        < length (dropWhile (\<lambda>c. c \<noteq> CHR ''/'') start)"
    using ne by (cases "dropWhile (\<lambda>c. c \<noteq> CHR ''/'') start") auto
  also have "\<dots> \<le> length start" by (rule length_dropWhile_le)
  finally show "\<And>x xa. (tl (dropWhile (\<lambda>c. c \<noteq> CHR ''/'') start), start) \<in> measure length"
    by simp
qed

declare scan_components.simps [simp del]

text \<open>
  The outer \<open>for\<close> loop of \<open>has_dangerous_chars\<close> over the characters \<open>p\<close> of the path:
  NUL, \<open>/\<close> and characters below 32 are passed over; at any other character the whole
  path is scanned (if it holds a \<open>/\<close> at all).
\<close>

fun dangerous_loop :: "string \<Rightarrow> string \<Rightarrow> bool" where
  "dangerous_loop path [] = False"
| "dangerous_loop path (p # ps) =
     (if p = CHR 0x00 \<or> p = CHR ''/'' \<or> char_lt_32 p then dangerous_loop path ps
      else if CHR ''/'' \<in> set path \<and> scan_components path then True
      else dangerous_loop path ps)"

definition has_dangerous_chars :: "string \<Rightarrow> bool" where
  "has_dangerous_chars path = dangerous_loop path path"

definition system_paths :: "string list" where
  "system_paths =
     [''/bin/'', ''/sbin/'', ''/usr/bin/'', ''/usr/sbin/'',
      ''/etc/'', ''/boot/'', ''/lib/'', ''/lib64/'',
      ''/root/'', ''/var/log/'', ''/proc/'', ''/sys/'']"

text \<open>\<open>strncmp (path, s, strlen (s)) == 0\<close>: the first \<open>strlen (s)\<close> bytes of \<open>path\<close> are \<open>s\<close>.\<close>

definition strncmp_prefix :: "string \<Rightarrow> string \<Rightarrow> bool" where
  "strncmp_prefix path s = (take (length s) path = s)"

definition lstat_is_link :: "os_env \<Rightarrow> string \<Rightarrow> bool" where
  "lstat_is_link env path = (case lstat env path of None \<Rightarrow> False | Some sb \<Rightarrow> S_ISLNK (st_mode sb))"

text \<open>\<open>is_safe_path\<close> returns 1 (\<open>True\<close> here) or 0.\<close>

definition is_safe_path :: "os_env \<Rightarrow> string \<Rightarrow> bool" where
  "is_safe_path env path =
     (if strstr_m path ''../'' then False
      else if realpath env path = None \<and> lstat_is_link env path then False
      else if has_dangerous_chars path then False
      else if list_ex (strncmp_prefix path) system_paths then False
      else True)"

subsection \<open>The two reasons the specification names\<close>

text \<open>
  A path escapes its root when, read from the left with a depth counter, a \<open>..\<close>
  component comes at depth 0.
\<close>

fun escapes_root :: "nat \<Rightarrow> string list \<Rightarrow> bool" where
  "escapes_root depth [] = False"
| "escapes_root depth (c # cs) =
     (if c = ''..'' then (depth = 0 \<or> escapes_root (depth - 1) cs)
      else if c = ''.'' \<or> c = [] then escapes_root depth cs
      else escapes_root (Suc depth) cs)"

definition has_escaping_dotdot :: "string \<Rightarrow> bool" where
  "has_escaping_dotdot q = escapes_root 0 (split_slash q)"

definition denylisted :: "string \<Rightarrow> bool" where
  "denylisted q = list_ex (\<lambda>s. prefix s q) system_paths"

text \<open>An environment without any file: every query fails.\<close>

definition no_files :: os_env where
  "no_files = \<lparr> realpath = (\<lambda>p. None), lstat = (\<lambda>p. None), readdir_names = (\<lambda>p. None),
       readlink = (\<lambda>p. None), getpwuid = (\<lambda>u. None), getgrgid = (\<lambda>g. None),
       time_to_string = (\<lambda>t. []) \<rparr>"

section \<open>Command dispatch and the process exit code (\<open>main.cpp\<close>, \<open>navigator.cpp\<close>)\<close>


definition dq :: char where "dq = CHR 0x22"  \<comment> \<open>the double quote\<close>

text \<open>The string \<open>{"error":"msg"}\<close>.\<close>

definition json_error :: "string \<Rightarrow> string" where
  "json_error msg = ''{'' @ [dq] @ ''error'' @ [dq] @ '':'' @ [dq] @ msg @ [dq] @ ''}''"







section \<open>Directory listing (\<open>FileNavigator::get_directory_contents\<close> of \<open>navigator.cpp\<close>)\<close>


text \<open>\<open>std::to_string\<close> of an unsigned number.\<close>

definition digit_char :: "nat \<Rightarrow> char" where
  "digit_char d = ''0123456789'' ! d"

fun to_string :: "nat \<Rightarrow> string" where
  "to_string n =
     (if n < 10 then [digit_char n] else to_string (n div 10) @ [digit_char (n mod 10)])"

declare to_string.simps [simp del]









subsection \<open>The order the specification describes\<close>






section \<open>A file system for the operations that change it\<close>

text \<open>
  The operations of the navigator and of \<open>n8n_copy_file\<close> act through system calls.
  Their effect is modelled on a state that holds what the calls can observe and change:
  \<^item> the nodes, as an association list from the absolute path of a node (its components
    from the root) to the node; the root, path \<open>[]\<close>, is always a directory and has no
    entry; a new node goes to the end of the list, so the entries of a directory are
    enumerated in the order of their creation;
  \<^item> the working directory of the process, against which relative paths are resolved;
  \<^item> \<open>errno\<close>, set by a call that fails and left alone by one that succeeds;
  \<^item> the paths removed by \<open>unlink\<close> and \<open>rmdir\<close>, in the order of their removal;
  \<^item> the number of bytes that can still be written before the device is full, and the
    number of bytes that \<open>malloc\<close> can still hand out.

  A node has no owner, mode or time stamps: calls that only change those (\<open>chmod\<close>,
  \<open>chown\<close>, \<open>utime\<close>, \<open>utimes\<close>) leave the state as it is, and no call fails for lack of
  permission.  Path resolution follows a symbolic link in the last component, for the
  calls that do so (\<open>stat\<close>, \<open>access\<close>, \<open>open\<close>, \<open>opendir\<close>), up to 40 links in a row;
  a symbolic link in the middle of a path is not followed: the call fails with
  \<open>ENOTDIR\<close>.  Further simplifications against Linux: a name has no maximal length
  (no \<open>ENAMETOOLONG\<close>), and a \<open>/\<close> at the end of a path is ignored whatever the node is.
  The results on \<open>mkdir\<close>, \<open>delete\<close> and \<open>copy\<close> are about the paths and states for which
  the model agrees with the system.
\<close>

datatype node = File string | Dir | Symlink string

datatype errno_t =
  E0 | ENOENT | EEXIST | ENOTDIR | EISDIR | EINVAL | ENOSPC | ENOTEMPTY | ELOOP | EBUSY

fun strerror :: "errno_t \<Rightarrow> string" where
  "strerror E0 = ''Success''"
| "strerror ENOENT = ''No such file or directory''"
| "strerror EEXIST = ''File exists''"
| "strerror ENOTDIR = ''Not a directory''"
| "strerror EISDIR = ''Is a directory''"
| "strerror EINVAL = ''Invalid argument''"
| "strerror ENOSPC = ''No space left on device''"
| "strerror ENOTEMPTY = ''Directory not empty''"
| "strerror ELOOP = ''Too many levels of symbolic links''"
| "strerror EBUSY = ''Device or resource busy''"

fun errno_code :: "errno_t \<Rightarrow> int" where
  "errno_code E0 = 0"
| "errno_code ENOENT = 2"
| "errno_code EBUSY = 16"
| "errno_code EEXIST = 17"
| "errno_code ENOTDIR = 20"
| "errno_code EISDIR = 21"
| "errno_code EINVAL = 22"
| "errno_code ENOSPC = 28"
| "errno_code ENOTEMPTY = 39"
| "errno_code ELOOP = 40"

record world =
  fs :: "(string list \<times> node) list"
  cwd :: "string list"
  errno :: errno_t
  removed :: "string list list"
  disk_free :: nat
  heap_free :: nat

definition lookup :: "(string list \<times> node) list \<Rightarrow> string list \<Rightarrow> node option" where
  "lookup nodes p = (if p = [] then Some Dir else map_of nodes p)"

text \<open>
  Walking the components of a path from directory \<open>cur\<close>: each component is looked up in
  a directory that must exist; the node of the last component itself is not looked at.
\<close>

fun namei :: "(string list \<times> node) list \<Rightarrow> string list \<Rightarrow> string list \<Rightarrow> errno_t + string list" where
  "namei nodes cur [] = Inr cur"
| "namei nodes cur (c # cs) =
     (case lookup nodes cur of
        None \<Rightarrow> Inl ENOENT
      | Some Dir \<Rightarrow>
          if c = ''.'' then namei nodes cur cs
          else if c = ''..'' then namei nodes (butlast cur) cs
          else namei nodes (cur @ [c]) cs
      | Some (File v) \<Rightarrow> Inl ENOTDIR
      | Some (Symlink t) \<Rightarrow> Inl ENOTDIR)"

definition resolve_from :: "(string list \<times> node) list \<Rightarrow> string list \<Rightarrow> string \<Rightarrow> errno_t + string list" where
  "resolve_from nodes dir path =
     (case path of
        [] \<Rightarrow> Inl ENOENT
      | c # cs \<Rightarrow> namei nodes (if c = CHR ''/'' then [] else dir) (strtok_all path))"

definition resolve :: "world \<Rightarrow> string \<Rightarrow> errno_t + string list" where
  "resolve w path = resolve_from (fs w) (cwd w) path"

text \<open>Following the symbolic links at a resolved path, at most \<open>n\<close> of them.\<close>

fun follow :: "nat \<Rightarrow> (string list \<times> node) list \<Rightarrow> string list \<Rightarrow> errno_t + string list" where
  "follow 0 nodes p =
     (case lookup nodes p of Some (Symlink t) \<Rightarrow> Inl ELOOP | _ \<Rightarrow> Inr p)"
| "follow (Suc n) nodes p =
     (case lookup nodes p of
        Some (Symlink t) \<Rightarrow>
          (case resolve_from nodes (butlast p) t of Inl e \<Rightarrow> Inl e | Inr q \<Rightarrow> follow n nodes q)
      | _ \<Rightarrow> Inr p)"

definition resolve_follow :: "world \<Rightarrow> string \<Rightarrow> errno_t + string list" where
  "resolve_follow w path =
     (case resolve w path of Inl e \<Rightarrow> Inl e | Inr p \<Rightarrow> follow 40 (fs w) p)"

definition child_names :: "(string list \<times> node) list \<Rightarrow> string list \<Rightarrow> string list" where
  "child_names nodes d = map (\<lambda>e. last (fst e)) (filter (\<lambda>e. fst e \<noteq> [] \<and> butlast (fst e) = d) nodes)"

definition fail :: "errno_t \<Rightarrow> world \<Rightarrow> world" where
  "fail e w = w\<lparr>errno := e\<rparr>"

subsection \<open>System calls\<close>

text \<open>
  Each call returns its result and the state it leaves.  \<open>lstat\<close> and \<open>stat\<close> return the
  node (from which \<open>S_ISDIR\<close> and \<open>S_ISLNK\<close> are read), \<open>None\<close> for the return value -1.
\<close>

definition sys_lstat :: "world \<Rightarrow> string \<Rightarrow> node option \<times> world" where
  "sys_lstat w path =
     (case resolve w path of
        Inl e \<Rightarrow> (None, fail e w)
      | Inr p \<Rightarrow> (case lookup (fs w) p of
                    None \<Rightarrow> (None, fail ENOENT w)
                  | Some n \<Rightarrow> (Some n, w)))"

definition sys_stat :: "world \<Rightarrow> string \<Rightarrow> node option \<times> world" where
  "sys_stat w path =
     (case resolve_follow w path of
        Inl e \<Rightarrow> (None, fail e w)
      | Inr p \<Rightarrow> (case lookup (fs w) p of
                    None \<Rightarrow> (None, fail ENOENT w)
                  | Some n \<Rightarrow> (Some n, w)))"

text \<open>\<open>access (path, F_OK) == 0\<close>.\<close>

definition sys_access :: "world \<Rightarrow> string \<Rightarrow> bool \<times> world" where
  "sys_access w path = (case sys_stat w path of (None, w') \<Rightarrow> (False, w') | (Some n, w') \<Rightarrow> (True, w'))"

text \<open>
  Where a new node can be made: the path resolves, nothing is there yet, and its parent
  is a directory.
\<close>

definition new_node_path :: "world \<Rightarrow> string \<Rightarrow> errno_t + string list" where
  "new_node_path w path =
     (case resolve w path of
        Inl e \<Rightarrow> Inl e
      | Inr p \<Rightarrow>
          if lookup (fs w) p \<noteq> None then Inl EEXIST
          else (case lookup (fs w) (butlast p) of
                  None \<Rightarrow> Inl ENOENT
                | Some Dir \<Rightarrow> Inr p
                | Some (File v) \<Rightarrow> Inl ENOTDIR
                | Some (Symlink t) \<Rightarrow> Inl ENOTDIR))"

text \<open>\<open>mkdir (path, mode) == 0\<close>.\<close>

definition sys_mkdir :: "world \<Rightarrow> string \<Rightarrow> bool \<times> world" where
  "sys_mkdir w path =
     (case new_node_path w path of
        Inl e \<Rightarrow> (False, fail e w)
      | Inr p \<Rightarrow> (True, w\<lparr>fs := fs w @ [(p, Dir)]\<rparr>))"

text \<open>\<open>symlink (target, path) == 0\<close>.\<close>

definition sys_symlink :: "world \<Rightarrow> string \<Rightarrow> string \<Rightarrow> bool \<times> world" where
  "sys_symlink w target path =
     (case new_node_path w path of
        Inl e \<Rightarrow> (False, fail e w)
      | Inr p \<Rightarrow> (True, w\<lparr>fs := fs w @ [(p, Symlink target)]\<rparr>))"

text \<open>\<open>readlink\<close>: the target, cut to the size of the buffer, or \<open>None\<close> for -1.\<close>

definition sys_readlink :: "world \<Rightarrow> string \<Rightarrow> nat \<Rightarrow> string option \<times> world" where
  "sys_readlink w path bufsize =
     (case sys_lstat w path of
        (None, w') \<Rightarrow> (None, w')
      | (Some (Symlink t), w') \<Rightarrow> (Some (take bufsize t), w')
      | (Some n, w') \<Rightarrow> (None, fail EINVAL w'))"

definition remove_node :: "string list \<Rightarrow> world \<Rightarrow> world" where
  "remove_node p w = w\<lparr>fs := filter (\<lambda>e. fst e \<noteq> p) (fs w), removed := removed w @ [p]\<rparr>"

text \<open>\<open>unlink (path) == 0\<close>.\<close>

definition sys_unlink :: "world \<Rightarrow> string \<Rightarrow> bool \<times> world" where
  "sys_unlink w path =
     (case resolve w path of
        Inl e \<Rightarrow> (False, fail e w)
      | Inr p \<Rightarrow>
          (case lookup (fs w) p of
             None \<Rightarrow> (False, fail ENOENT w)
           | Some Dir \<Rightarrow> (False, fail EISDIR w)
           | Some n \<Rightarrow> (True, remove_node p w)))"


text \<open>
  \<open>opendir\<close> and the names that the following calls of \<open>readdir\<close> yield (\<open>.\<close> and \<open>..\<close>
  first, then the entries as they are at the time of \<open>opendir\<close>); \<open>None\<close> when \<open>opendir\<close>
  returns \<open>NULL\<close>.  The entries come in the order of the list of nodes; the system
  promises no order, and every order of the entries of each directory is the order of
  some arrangement of the list.
\<close>

definition sys_opendir :: "world \<Rightarrow> string \<Rightarrow> string list option \<times> world" where
  "sys_opendir w path =
     (case resolve_follow w path of
        Inl e \<Rightarrow> (None, fail e w)
      | Inr p \<Rightarrow>
          (case lookup (fs w) p of
             None \<Rightarrow> (None, fail ENOENT w)
           | Some Dir \<Rightarrow> (Some (''.'' # ''..'' # child_names (fs w) p), w)
           | Some n \<Rightarrow> (None, fail ENOTDIR w)))"

text \<open>
  \<open>open (path, O_RDONLY)\<close> (and \<open>fopen (path, "rb")\<close>): the descriptor is the resolved path
  of the node; a directory can be opened, reading it fails.
\<close>

definition sys_open_read :: "world \<Rightarrow> string \<Rightarrow> string list option \<times> world" where
  "sys_open_read w path =
     (case resolve_follow w path of
        Inl e \<Rightarrow> (None, fail e w)
      | Inr p \<Rightarrow> (case lookup (fs w) p of
                    None \<Rightarrow> (None, fail ENOENT w)
                  | Some n \<Rightarrow> (Some p, w)))"

definition set_node :: "string list \<Rightarrow> node \<Rightarrow> (string list \<times> node) list \<Rightarrow> (string list \<times> node) list" where
  "set_node p n nodes =
     (if map_of nodes p = None then nodes @ [(p, n)]
      else map (\<lambda>e. if fst e = p then (p, n) else e) nodes)"

text \<open>
  \<open>open (path, O_WRONLY | O_CREAT | O_TRUNC, mode)\<close> (and \<open>fopen (path, "wb")\<close>): an
  existing file is emptied, a missing one is created in its directory.
\<close>

definition sys_open_write :: "world \<Rightarrow> string \<Rightarrow> string list option \<times> world" where
  "sys_open_write w path =
     (case resolve_follow w path of
        Inl e \<Rightarrow> (None, fail e w)
      | Inr p \<Rightarrow>
          (case lookup (fs w) p of
             Some Dir \<Rightarrow> (None, fail EISDIR w)
           | Some (Symlink t) \<Rightarrow> (None, fail ELOOP w)
           | Some (File v) \<Rightarrow> (Some p, w\<lparr>fs := set_node p (File []) (fs w)\<rparr>)
           | None \<Rightarrow>
               (case lookup (fs w) (butlast p) of
                  None \<Rightarrow> (None, fail ENOENT w)
                | Some Dir \<Rightarrow> (Some p, w\<lparr>fs := set_node p (File []) (fs w)\<rparr>)
                | Some n \<Rightarrow> (None, fail ENOTDIR w))))"

text \<open>The bytes of the node behind a descriptor; \<open>None\<close>: \<open>read\<close> fails (a directory).\<close>

definition file_bytes :: "world \<Rightarrow> string list \<Rightarrow> string option" where
  "file_bytes w p = (case lookup (fs w) p of Some (File v) \<Rightarrow> Some v | _ \<Rightarrow> None)"

text \<open>
  \<open>write (fd, buffer, n)\<close> appends to the file as many of the bytes as the device has
  room for, and returns their number.
\<close>

definition sys_write :: "world \<Rightarrow> string list \<Rightarrow> string \<Rightarrow> nat \<times> world" where
  "sys_write w p bytes =
     (let n = min (length bytes) (disk_free w) in
      case lookup (fs w) p of
        Some (File v) \<Rightarrow>
          (if n = 0 \<and> bytes \<noteq> [] then (0, fail ENOSPC w)
           else (n, w\<lparr>fs := set_node p (File (v @ take n bytes)) (fs w),
                      disk_free := disk_free w - n\<rparr>))
      | _ \<Rightarrow> (0, fail EINVAL w))"

text \<open>
  The copy loop of \<open>copy_item\<close> and of \<open>n8n_copy_file\<close>: \<open>data\<close> is what is left to read
  of the source, read and written in pieces of \<open>bufsize\<close> bytes; the loop ends with
  \<open>False\<close> when a piece is not written whole.
\<close>

function copy_loop :: "world \<Rightarrow> string list \<Rightarrow> nat \<Rightarrow> string \<Rightarrow> bool \<times> world" where
  "copy_loop w dst bufsize data =
     (if data = [] \<or> bufsize = 0 then (True, w)
      else
        (case sys_write w dst (take bufsize data) of
           (n, w') \<Rightarrow>
             if n \<noteq> length (take bufsize data) then (False, w')
             else copy_loop w' dst bufsize (drop bufsize data)))"
  by pat_completeness auto
termination
  by (relation "measure (\<lambda>(w, dst, bufsize, data). length data)") auto

declare copy_loop.simps [simp del]

section \<open>Operations of the navigator that change the file system (\<open>navigator.cpp\<close>)\<close>

text \<open>\<open>s.find_last_of (c)\<close>; \<open>None\<close> stands for \<open>npos\<close>.\<close>

definition find_last_of :: "string \<Rightarrow> char \<Rightarrow> nat option" where
  "find_last_of s c =
     (if c \<in> set s then Some (length s - 1 - length (takeWhile (\<lambda>d. d \<noteq> c) (rev s))) else None)"

text \<open>\<open>FileNavigator::get_absolute_path\<close>, with the member \<open>current_path\<close> as an argument.\<close>

definition get_absolute_path :: "string \<Rightarrow> string \<Rightarrow> string" where
  "get_absolute_path current_path path =
     (case path of
        [] \<Rightarrow> current_path
      | c # cs \<Rightarrow>
          if c = CHR ''/'' then path
          else if path = ''.'' then current_path
          else if path = ''..'' then
            (case find_last_of current_path (CHR ''/'') of
               None \<Rightarrow> current_path
             | Some pos \<Rightarrow> if pos = 0 then ''/'' else take pos current_path)
          else if current_path = ''/'' then current_path @ path
          else current_path @ ''/'' @ path)"

text \<open>The result objects: \<open>{"success":true,"key":"value"}\<close> with one or two members.\<close>

definition quoted :: "string \<Rightarrow> string" where
  "quoted s = [dq] @ s @ [dq]"

definition json_success :: "string \<Rightarrow> string \<Rightarrow> string" where
  "json_success key v = ''{'' @ quoted ''success'' @ '':true,'' @ quoted key @ '':'' @ quoted v @ ''}''"

definition json_success2 :: "string \<Rightarrow> string \<Rightarrow> string \<Rightarrow> string \<Rightarrow> string" where
  "json_success2 key1 v1 key2 v2 =
     ''{'' @ quoted ''success'' @ '':true,'' @ quoted key1 @ '':'' @ quoted v1 @ '','' @
     quoted key2 @ '':'' @ quoted v2 @ ''}''"

subsection \<open>\<open>mkdir\<close>\<close>

text \<open>
  \<open>FileNavigator::mkdir_recursive\<close>.  Its loop visits the positions of \<open>/\<close> in the path
  from index 1 on, in order (\<open>pos = path.find ('/', pos + 1)\<close>), and makes the directory
  named by the path up to each; a failure other than \<open>EEXIST\<close> ends it with -1 (\<open>False\<close>
  here).  After the loop comes \<open>mkdir\<close> of the whole path, whose result is returned.
\<close>

definition slash_positions :: "string \<Rightarrow> nat list" where
  "slash_positions path = filter (\<lambda>i. path ! i = CHR ''/'') [1..<length path]"

fun mkdir_prefixes :: "world \<Rightarrow> string \<Rightarrow> nat list \<Rightarrow> bool \<times> world" where
  "mkdir_prefixes w path [] = (True, w)"
| "mkdir_prefixes w path (pos # rest) =
     (let current = take pos path in
      if current = [] then mkdir_prefixes w path rest
      else (case sys_mkdir w current of
              (ok, w') \<Rightarrow>
                if \<not> ok \<and> errno w' \<noteq> EEXIST then (False, w')
                else mkdir_prefixes w' path rest))"

definition mkdir_recursive :: "world \<Rightarrow> string \<Rightarrow> bool \<times> world" where
  "mkdir_recursive w path =
     (case mkdir_prefixes w path (slash_positions path) of
        (False, w') \<Rightarrow> (False, w')
      | (True, w') \<Rightarrow> sys_mkdir w' path)"

text \<open>\<open>FileNavigator::create_directory\<close>: the result string and the state it leaves.\<close>

definition create_directory :: "string \<Rightarrow> world \<Rightarrow> string list \<Rightarrow> string \<times> world" where
  "create_directory current_path w args =
     (case args of
        [] \<Rightarrow> (json_error ''No directory name specified'', w)
      | dir_name # opts \<Rightarrow>
          let full_path = get_absolute_path current_path dir_name in
          if opts \<noteq> [] \<and> hd opts = ''-p'' then
            (case mkdir_recursive w full_path of
               (True, w') \<Rightarrow> (json_success ''path'' full_path, w')
             | (False, w') \<Rightarrow>
                 (json_error (''Failed to create directory: '' @ strerror (errno w')), w'))
          else
            (case sys_mkdir w full_path of
               (True, w') \<Rightarrow> (json_success ''path'' full_path, w')
             | (False, w') \<Rightarrow>
                 (json_error (''Failed to create directory: '' @ strerror (errno w')), w')))"

subsection \<open>\<open>delete\<close>\<close>



subsection \<open>\<open>copy\<close>\<close>

text \<open>
  The part of \<open>copy_item\<close> behind the tests for a directory (headed by the comment that
  a regular file is copied): both files are opened, the
  bytes are copied in pieces of 4096, the destination is removed when a piece cannot
  be written, and the time stamps are copied (no change of the modelled state).
\<close>

definition copy_file_data :: "world \<Rightarrow> string \<Rightarrow> string \<Rightarrow> string \<times> world" where
  "copy_file_data w src dst =
     (case sys_open_read w src of
        (None, w1) \<Rightarrow> (json_error (''Cannot open source file: '' @ strerror (errno w1)), w1)
      | (Some source_fd, w1) \<Rightarrow>
          (case sys_open_write w1 dst of
             (None, w2) \<Rightarrow>
               (json_error (''Cannot create destination file: '' @ strerror (errno w2)), w2)
           | (Some dest_fd, w2) \<Rightarrow>
               (case copy_loop w2 dest_fd 4096
                       (case file_bytes w2 source_fd of None \<Rightarrow> [] | Some v \<Rightarrow> v) of
                  (False, w3) \<Rightarrow>
                    (case sys_unlink w3 dst of
                       (r, w4) \<Rightarrow>
                         (json_error (''Failed to copy file data: '' @ strerror (errno w4)), w4))
                | (True, w3) \<Rightarrow> (json_success2 ''source'' src ''destination'' dst, w3))))"

text \<open>
  \<open>copy_item\<close> and \<open>copy_directory\<close> call each other; \<open>copy_entries\<close> is the loop of
  \<open>copy_directory\<close> over the names that \<open>readdir\<close> yields, \<open>Inl r\<close> its \<open>return result\<close>.
  As for deletion, \<open>fuel\<close> bounds the depth of the calls and \<open>None\<close> means it ran out.
\<close>

definition reports_success :: "string \<Rightarrow> bool" where
  "reports_success r = strstr_m r (quoted ''success'' @ '':true'')"

function copy_item :: "nat \<Rightarrow> string \<Rightarrow> world \<Rightarrow> string list \<Rightarrow> (string \<times> world) option"
  and copy_directory :: "nat \<Rightarrow> string \<Rightarrow> world \<Rightarrow> string \<Rightarrow> string \<Rightarrow> (string \<times> world) option"
  and copy_entries ::
    "nat \<Rightarrow> string \<Rightarrow> world \<Rightarrow> string \<Rightarrow> string \<Rightarrow> string list \<Rightarrow> ((string + unit) \<times> world) option"
where
  "copy_item fuel current_path w args =
     (if length args < 2 then Some (json_error ''Source and destination required'', w)
      else
        let src = get_absolute_path current_path (args ! 0);
            dst = get_absolute_path current_path (args ! 1) in
        (case sys_lstat w src of
           (None, w1) \<Rightarrow> Some (json_error (''Source not found: '' @ strerror (errno w1)), w1)
         | (Some src_stat, w1) \<Rightarrow>
             if src_stat = Dir \<and> \<not> (2 < length args \<and> args ! 2 = ''-r'')
             then Some (json_error ''Cannot copy directory without -r flag'', w1)
             else if src_stat = Dir then copy_directory fuel current_path w1 src dst
             else Some (copy_file_data w1 src dst)))"
| "copy_directory 0 current_path w src dst = None"
| "copy_directory (Suc fuel) current_path w src dst =
     (case sys_mkdir w dst of
        (ok, w1) \<Rightarrow>
          if \<not> ok \<and> errno w1 \<noteq> EEXIST
          then Some (json_error (''Cannot create destination directory: '' @ strerror (errno w1)), w1)
          else
            (case sys_opendir w1 src of
               (None, w2) \<Rightarrow>
                 Some (json_error (''Cannot open source directory: '' @ strerror (errno w2)), w2)
             | (Some names, w2) \<Rightarrow>
                 (case copy_entries fuel current_path w2 src dst names of
                    None \<Rightarrow> None
                  | Some (Inl result, w3) \<Rightarrow> Some (result, w3)
                  | Some (Inr u, w3) \<Rightarrow>
                      Some (json_success2 ''source'' src ''destination'' dst, w3))))"
| "copy_entries fuel current_path w src dst [] = Some (Inr (), w)"
| "copy_entries fuel current_path w src dst (d_name # rest) =
     (if d_name = ''.'' \<or> d_name = ''..'' then copy_entries fuel current_path w src dst rest
      else
        (case sys_lstat w (src @ ''/'' @ d_name) of
           (None, w1) \<Rightarrow> copy_entries fuel current_path w1 src dst rest
         | (Some statbuf, w1) \<Rightarrow>
             (case (if statbuf = Dir
                    then copy_directory fuel current_path w1 (src @ ''/'' @ d_name) (dst @ ''/'' @ d_name)
                    else copy_item fuel current_path w1 [src @ ''/'' @ d_name, dst @ ''/'' @ d_name]) of
                None \<Rightarrow> None
              | Some (result, w2) \<Rightarrow>
                  if \<not> reports_success result then Some (Inl result, w2)
                  else copy_entries fuel current_path w2 src dst rest)))"
  by pat_completeness auto
termination
  by (relation "measures
        [\<lambda>x. case x of Inl (fuel, c, w, args) \<Rightarrow> fuel
                | Inr (Inl (fuel, c, w, src, dst)) \<Rightarrow> fuel
                | Inr (Inr (fuel, c, w, src, dst, names)) \<Rightarrow> fuel,
         \<lambda>x. case x of Inl (fuel, c, w, args) \<Rightarrow> 1
                | Inr (Inl (fuel, c, w, src, dst)) \<Rightarrow> 0
                | Inr (Inr (fuel, c, w, src, dst, names)) \<Rightarrow> 2 + length names]")
     auto

section \<open>\<open>n8n_copy_file\<close> and \<open>n8n_batch_copy\<close> (\<open>Core/file_utils.c\<close>)\<close>

record N8N_CopyOptions =
  overwrite :: bool
  preserveTimestamps :: bool
  createDestDir :: bool
  preservePermissions :: bool
  preserveOwner :: bool

text \<open>
  \<open>N8N_Result\<close>; \<open>result_data\<close> is the array that \<open>data\<close> points to (empty for \<open>NULL\<close>).
\<close>

record N8N_Result =
  success :: bool
  message :: string
  errorCode :: int
  result_data :: "int list"

definition result0 :: N8N_Result where
  "result0 = \<lparr> success = False, message = [], errorCode = 0, result_data = [] \<rparr>"

text \<open>\<open>chmod\<close>, \<open>chown\<close> and \<open>utime\<close> change attributes that the state does not hold.\<close>

definition sys_set_attributes :: "world \<Rightarrow> string \<Rightarrow> world" where
  "sys_set_attributes w path = w"

text \<open>
  The block under \<open>options.createDestDir\<close>: the destination is cut at its last \<open>/\<close> and
  \<open>mkdir\<close> is called on what is left; the result of \<open>mkdir\<close> is not looked at.
\<close>

definition create_dest_dir :: "world \<Rightarrow> string \<Rightarrow> world" where
  "create_dest_dir w destination =
     (let destDir = take (PATH_MAX - 1) destination in
      case find_last_of destDir (CHR ''/'') of
        None \<Rightarrow> w
      | Some lastSlash \<Rightarrow> snd (sys_mkdir w (take lastSlash destDir)))"

definition n8n_copy_file :: "world \<Rightarrow> string \<Rightarrow> string \<Rightarrow> N8N_CopyOptions \<Rightarrow> N8N_Result \<times> world" where
  "n8n_copy_file w source destination options =
     (case sys_lstat w source of
        (None, w1) \<Rightarrow>
          (result0\<lparr>message := ''Source file does not exist: '' @ strerror (errno w1),
                   errorCode := errno_code (errno w1)\<rparr>, w1)
      | (Some source_stat, w1) \<Rightarrow>
          (case (if \<not> overwrite options then sys_access w1 destination else (False, w1)) of
             (True, w2) \<Rightarrow>
               (result0\<lparr>message := ''Destination file already exists'',
                        errorCode := errno_code EEXIST\<rparr>, w2)
           | (False, w2) \<Rightarrow>
               let w3 = (if createDestDir options then create_dest_dir w2 destination else w2) in
               (case source_stat of
                  Symlink t \<Rightarrow>
                    (case sys_readlink w3 source (PATH_MAX - 1) of
                       (None, w4) \<Rightarrow> (result0, w4)
                     | (Some link_target, w4) \<Rightarrow>
                         (case sys_symlink w4 link_target destination of
                            (True, w5) \<Rightarrow>
                              (result0\<lparr>success := True,
                                       message := ''Symbolic link copied successfully''\<rparr>, w5)
                          | (False, w5) \<Rightarrow>
                              (result0\<lparr>errorCode := errno_code (errno w5),
                                       message := ''Failed to create symbolic link: ''
                                                  @ strerror (errno w5)\<rparr>, w5)))
                | Dir \<Rightarrow>
                    (case sys_mkdir w3 destination of
                       (True, w4) \<Rightarrow>
                         (result0\<lparr>success := True, message := ''Directory created successfully''\<rparr>,
                          if preservePermissions options then sys_set_attributes w4 destination
                          else w4)
                     | (False, w4) \<Rightarrow>
                         (result0\<lparr>errorCode := errno_code (errno w4),
                                  message := ''Failed to create directory: ''
                                             @ strerror (errno w4)\<rparr>, w4))
                | File v \<Rightarrow>
                    (case sys_open_read w3 source of
                       (None, w4) \<Rightarrow>
                         (result0\<lparr>message := ''Cannot open source file: '' @ strerror (errno w4),
                                  errorCode := errno_code (errno w4)\<rparr>, w4)
                     | (Some src_fp, w4) \<Rightarrow>
                         (case sys_open_write w4 destination of
                            (None, w5) \<Rightarrow>
                              (result0\<lparr>message := ''Cannot open destination file: ''
                                                  @ strerror (errno w5),
                                       errorCode := errno_code (errno w5)\<rparr>, w5)
                          | (Some dst_fp, w5) \<Rightarrow>
                              let data = (case file_bytes w5 src_fp of None \<Rightarrow> [] | Some b \<Rightarrow> b) in
                              (case copy_loop w5 dst_fp 8192 data of
                                 (False, w6) \<Rightarrow>
                                   (result0\<lparr>errorCode := errno_code (errno w6),
                                            message := ''Write error: '' @ strerror (errno w6)\<rparr>, w6)
                               | (True, w6) \<Rightarrow>
                                   let w7 = (if preserveTimestamps options
                                             then sys_set_attributes w6 destination else w6);
                                       w8 = (if preservePermissions options
                                             then sys_set_attributes w7 destination else w7);
                                       w9 = (if preserveOwner options
                                             then sys_set_attributes w8 destination else w8) in
                                   (result0\<lparr>success := True,
                                            message := ''File copied successfully. Size: ''
                                              @ to_string (length data) @ '' bytes''\<rparr>, w9)))))))"

text \<open>
  The \<open>for\<close> loop of \<open>n8n_batch_copy\<close> over the indices, with the array \<open>results\<close> and the two
  counters.  (The message of a failed copy is also printed by \<open>n8n_log\<close>; output is not
  modelled.)
\<close>

fun batch_loop ::
  "world \<Rightarrow> string list \<Rightarrow> string list \<Rightarrow> N8N_CopyOptions \<Rightarrow> nat list \<Rightarrow>
   int list \<Rightarrow> nat \<Rightarrow> nat \<Rightarrow> int list \<times> nat \<times> nat \<times> world" where
  "batch_loop w sources destinations options [] results successCount failCount =
     (results, successCount, failCount, w)"
| "batch_loop w sources destinations options (i # rest) results successCount failCount =
     (case n8n_copy_file w (sources ! i) (destinations ! i) options of
        (copyResult, w') \<Rightarrow>
          batch_loop w' sources destinations options rest
            (results[i := (if success copyResult then 1 else 0)])
            (if success copyResult then Suc successCount else successCount)
            (if success copyResult then failCount else Suc failCount))"

text \<open>
  \<open>n8n_batch_copy (sources, destinations, count, options)\<close>, with \<open>count'\<close> for the
  parameter \<open>count\<close>.  \<open>malloc\<close> of the result array
  (4 bytes for each \<open>int\<close>) succeeds when the heap has that many bytes left.
\<close>

definition n8n_batch_copy ::
  "world \<Rightarrow> string list \<Rightarrow> string list \<Rightarrow> nat \<Rightarrow> N8N_CopyOptions \<Rightarrow> N8N_Result \<times> world" where
  "n8n_batch_copy w sources destinations count' options =
     (if heap_free w < count' * 4
      then (result0\<lparr>message := ''Memory allocation failed'', success := False\<rparr>, w)
      else
        (case batch_loop w sources destinations options [0..<count'] (replicate count' 0) 0 0 of
           (results, successCount, failCount, w') \<Rightarrow>
             (result0\<lparr>success := True,
                      message := ''Batch copy completed: '' @ to_string successCount
                                 @ '' succeeded, '' @ to_string failCount @ '' failed'',
                      result_data := results\<rparr>, w')))"

subsection \<open>The copies of a batch, one after the other\<close>

text \<open>
  The state in which the copy of pair \<open>i\<close> starts: the one that the copies of the pairs
  before it leave, whether they succeed or fail.
\<close>

fun state_before :: "world \<Rightarrow> string list \<Rightarrow> string list \<Rightarrow> N8N_CopyOptions \<Rightarrow> nat \<Rightarrow> world" where
  "state_before w sources destinations options 0 = w"
| "state_before w sources destinations options (Suc i) =
     snd (n8n_copy_file (state_before w sources destinations options i)
            (sources ! i) (destinations ! i) options)"

definition pair_succeeds :: "world \<Rightarrow> string list \<Rightarrow> string list \<Rightarrow> N8N_CopyOptions \<Rightarrow> nat \<Rightarrow> bool" where
  "pair_succeeds w sources destinations options i =
     success (fst (n8n_copy_file (state_before w sources destinations options i)
                     (sources ! i) (destinations ! i) options))"

definition default_options :: N8N_CopyOptions where
  "default_options = \<lparr> overwrite = False, preserveTimestamps = False, createDestDir = False,
     preservePermissions = False, preserveOwner = False \<rparr>"

text \<open>A state with four of five source files: \<open>/s3\<close> is missing.\<close>

definition batch_world :: world where
  "batch_world =
     \<lparr> fs = [([''s1''], File ''one''), ([''s2''], File ''two''), ([''s4''], File ''four''),
             ([''s5''], File ''five'')],
       cwd = [], errno = E0, removed = [], disk_free = 4096, heap_free = 4096 \<rparr>"

section \<open>Example states\<close>

text \<open>
  The directory \<open>/d\<close> with a file \<open>f\<close> and a symbolic link \<open>l\<close> to it.
\<close>

definition link_world :: world where
  "link_world =
     \<lparr> fs = [([''d''], Dir), ([''d'', ''f''], File ''hi''), ([''d'', ''l''], Symlink ''/d/f'')],
       cwd = [], errno = E0, removed = [], disk_free = 1000, heap_free = 1000 \<rparr>"


text \<open>A state extends another when it has the same working directory and every node of the other.\<close>

definition extends :: "world \<Rightarrow> world \<Rightarrow> bool" where
  "extends w w' = (cwd w' = cwd w \<and> (\<forall>k n. lookup (fs w) k = Some n \<longrightarrow> lookup (fs w') k = Some n))"

section \<open>Well-formed file systems and the order of removals\<close>






section \<open>The handlers of \<open>mkdir\<close>, \<open>delete\<close> and \<open>copy\<close> under \<open>main\<close>\<close>





subsection \<open>Results on permission strings\<close>

lemma permissions_to_string_shell_style:
  "permissions_to_string mode = shell_style_permissions mode"
  by (simp add: permissions_to_string_def shell_style_permissions_def triplet_def
      exec_char_def type_char_def Let_def)

lemma nav_get_permissions_string_shell_style:
  "nav_get_permissions_string mode = shell_style_permissions mode"
  by (simp add: nav_get_permissions_string_def shell_style_permissions_def triplet_def
      exec_char_def type_char_def Let_def numeral_eq_Suc)

lemma permissions_to_string_length: "length (permissions_to_string mode) = 10"
  by (simp add: permissions_to_string_def Let_def)

text \<open>
  C9.  The permission string of a metadata record is the type character followed by three
  rwx triplets with the setuid, setgid and sticky bits shown as s/S, s/S and t/T in
  positions 3, 6 and 9.  \<open>permissions_to_string\<close> and the navigator's method produce
  that string for every mode (the two lemmas above); \<open>get_permissions_string\<close> of
  \<open>file_ops.c\<close> does not: for the setuid, setgid, sticky mode 07755 of a regular file
  it prints plain \<open>x\<close> in all three positions.
\<close>

theorem get_permissions_string_drops_special_bits:
  "get_permissions_string 0x8FED = ''-rwxr-xr-x'' \<and>
   shell_style_permissions 0x8FED = ''-rwsr-sr-t'' \<and>
   permissions_to_string 0x8FED = ''-rwsr-sr-t'' \<and>
   nav_get_permissions_string 0x8FED = ''-rwsr-sr-t''"
  by (simp add: permissions_to_string_shell_style nav_get_permissions_string_shell_style
      get_permissions_string_def shell_style_permissions_def triplet_def exec_char_def
      type_char_def has_bit_def
      S_ISDIR_def S_ISLNK_def S_ISFIFO_def S_ISSOCK_def S_ISCHR_def S_ISBLK_def
      S_IFMT_def S_IFSOCK_def S_IFLNK_def S_IFBLK_def S_IFDIR_def S_IFCHR_def S_IFIFO_def
      S_ISUID_def S_ISGID_def S_ISVTX_def S_IRUSR_def S_IWUSR_def S_IXUSR_def
      S_IRGRP_def S_IWGRP_def S_IXGRP_def S_IROTH_def S_IWOTH_def S_IXOTH_def)

section \<open>Results on path normalisation\<close>

lemma strtok_all_none:
  "dropWhile (\<lambda>c. c = CHR ''/'') s = [] \<Longrightarrow> strtok_all s = []"
  by (subst strtok_all.simps) (simp only: list.case)

lemma strtok_all_some:
  "dropWhile (\<lambda>c. c = CHR ''/'') s = c # cs \<Longrightarrow>
   strtok_all s = (c # takeWhile (\<lambda>d. d \<noteq> CHR ''/'') cs)
                  # strtok_all (dropWhile (\<lambda>d. d \<noteq> CHR ''/'') cs)"
  by (subst strtok_all.simps) (simp only: list.case)

lemma strtok_all_Nil: "strtok_all [] = []"
  by (simp add: strtok_all_none)

lemma strtok_all_plain_slash:
  assumes "c \<noteq> []" "CHR ''/'' \<notin> set c"
  shows "strtok_all (c @ CHR ''/'' # rest) = c # strtok_all rest"
proof -
  obtain x xs where c: "c = x # xs" using assms(1) by (cases c) auto
  have x: "x \<noteq> CHR ''/''" and xs: "\<forall>d\<in>set xs. d \<noteq> CHR ''/''" using assms(2) c by auto
  have t: "takeWhile (\<lambda>d. d \<noteq> CHR ''/'') (xs @ CHR ''/'' # rest) = xs"
    using xs by (simp add: takeWhile_append2)
  have d: "dropWhile (\<lambda>d. d \<noteq> CHR ''/'') (xs @ CHR ''/'' # rest) = CHR ''/'' # rest"
    using xs by (simp add: dropWhile_append2)
  have r: "strtok_all (CHR ''/'' # rest) = strtok_all rest"
    by (simp add: strtok_all.simps [of "CHR ''/'' # rest"] strtok_all.simps [of rest])
  show ?thesis
    by (subst strtok_all.simps) (simp add: c x t d r)
qed

lemma strtok_all_plain:
  assumes "c \<noteq> []" "CHR ''/'' \<notin> set c"
  shows "strtok_all c = [c]"
proof -
  obtain x xs where c: "c = x # xs" using assms(1) by (cases c) auto
  have x: "x \<noteq> CHR ''/''" and xs: "\<forall>d\<in>set xs. d \<noteq> CHR ''/''" using assms(2) c by auto
  have t: "takeWhile (\<lambda>d. d \<noteq> CHR ''/'') xs = xs" using xs by simp
  have d: "dropWhile (\<lambda>d. d \<noteq> CHR ''/'') xs = []" using xs by simp
  show ?thesis
    by (subst strtok_all.simps) (simp add: c x t d strtok_all_Nil)
qed

lemma strtok_all_join:
  "\<forall>d\<in>set (c # cs). d \<noteq> [] \<and> CHR ''/'' \<notin> set d \<Longrightarrow>
   strtok_all (c @ concat (map (\<lambda>d. CHR ''/'' # d) cs)) = c # cs"
proof (induction cs arbitrary: c)
  case Nil
  then show ?case by (simp add: strtok_all_plain)
next
  case (Cons d ds)
  have "strtok_all (c @ CHR ''/'' # (d @ concat (map (\<lambda>d. CHR ''/'' # d) ds)))
        = c # strtok_all (d @ concat (map (\<lambda>d. CHR ''/'' # d) ds))"
    using Cons.prems by (intro strtok_all_plain_slash) auto
  also have "strtok_all (d @ concat (map (\<lambda>d. CHR ''/'' # d) ds)) = d # ds"
    using Cons.prems by (intro Cons.IH) auto
  finally show ?case by simp
qed

lemma strtok_all_tokens:
  "t \<in> set (strtok_all s) \<Longrightarrow> t \<noteq> [] \<and> CHR ''/'' \<notin> set t \<and> set t \<subseteq> set s"
proof (induction s arbitrary: t rule: strtok_all.induct)
  case (1 s)
  show ?case
  proof (cases "dropWhile (\<lambda>c. c = CHR ''/'') s")
    case Nil
    with "1.prems" show ?thesis by (simp only: strtok_all_none [OF Nil]) simp
  next
    case (Cons c cs)
    have hd: "c \<noteq> CHR ''/''"
      using hd_dropWhile [of "\<lambda>c. c = CHR ''/''" s] Cons by auto
    have sub: "set (c # cs) \<subseteq> set s"
      using set_dropWhileD [of _ "\<lambda>c. c = CHR ''/''" s] Cons by auto
    from "1.prems" Cons
    consider "t = c # takeWhile (\<lambda>d. d \<noteq> CHR ''/'') cs"
      | "t \<in> set (strtok_all (dropWhile (\<lambda>d. d \<noteq> CHR ''/'') cs))"
      by (auto simp: strtok_all_some [OF Cons])
    then show ?thesis
    proof cases
      case 1
      have "set (takeWhile (\<lambda>d. d \<noteq> CHR ''/'') cs) \<subseteq> set cs"
        by (auto dest: set_takeWhileD)
      moreover have "CHR ''/'' \<notin> set (takeWhile (\<lambda>d. d \<noteq> CHR ''/'') cs)"
        by (auto dest: set_takeWhileD)
      ultimately show ?thesis using 1 hd sub by auto
    next
      case 2
      from "1.IH" [OF Cons 2]
      have "t \<noteq> [] \<and> CHR ''/'' \<notin> set t \<and> set t \<subseteq> set (dropWhile (\<lambda>d. d \<noteq> CHR ''/'') cs)" .
      moreover have "set (dropWhile (\<lambda>d. d \<noteq> CHR ''/'') cs) \<subseteq> set cs"
        by (auto dest: set_dropWhileD)
      ultimately show ?thesis using sub by auto
    qed
  qed
qed

lemma weight_strtok_all_lead:
  "weight (strtok_all s) + length (takeWhile (\<lambda>c. c = CHR ''/'') s) \<le> Suc (length s)"
proof (induction s rule: strtok_all.induct)
  case (1 s)
  let ?k = "length (takeWhile (\<lambda>c. c = CHR ''/'') s)"
  have split: "?k + length (dropWhile (\<lambda>c. c = CHR ''/'') s) = length s"
    by (metis length_append takeWhile_dropWhile_id)
  show ?case
  proof (cases "dropWhile (\<lambda>c. c = CHR ''/'') s")
    case Nil
    then show ?thesis using split by (simp add: strtok_all_none [OF Nil] weight_def)
  next
    case (Cons c cs)
    let ?t = "takeWhile (\<lambda>d. d \<noteq> CHR ''/'') cs"
    let ?d = "dropWhile (\<lambda>d. d \<noteq> CHR ''/'') cs"
    have len: "length ?t + length ?d = length cs"
      by (metis length_append takeWhile_dropWhile_id)
    have ls: "length s = ?k + Suc (length cs)"
      using split Cons by simp
    have IH: "weight (strtok_all ?d) + length (takeWhile (\<lambda>c. c = CHR ''/'') ?d)
              \<le> Suc (length ?d)"
      by (rule "1.IH" [OF Cons])
    have w: "weight (strtok_all s) = Suc (Suc (length ?t)) + weight (strtok_all ?d)"
      by (simp add: strtok_all_some [OF Cons] weight_def)
    have "weight (strtok_all ?d) \<le> length ?d"
    proof (cases "?d")
      case Nil
      have "strtok_all ?d = strtok_all []" by (simp only: Nil)
      then show ?thesis by (simp add: strtok_all_Nil weight_def)
    next
      case (Cons e es)
      have e: "e = CHR ''/''"
        using hd_dropWhile [of "\<lambda>d. d \<noteq> CHR ''/''" cs] Cons by auto
      have "1 \<le> length (takeWhile (\<lambda>c. c = CHR ''/'') ?d)"
        by (simp only: Cons e) simp
      with IH show ?thesis by linarith
    qed
    with w len ls show ?thesis by linarith
  qed
qed

lemma weight_strtok_all: "weight (strtok_all s) \<le> Suc (length s)"
  using weight_strtok_all_lead [of s] by linarith

lemma weight_butlast: "weight (butlast cs) \<le> weight cs"
  by (induction cs) (auto simp: weight_def)

lemma weight_append: "weight (xs @ ys) = weight xs + weight ys"
  by (simp add: weight_def)

lemma collect_components_step:
  "collect_components comps (t # ts) =
     (if 256 \<le> length comps then comps
      else if t = ''..'' then collect_components (butlast comps) ts
      else if t = ''.'' \<or> t = [] then collect_components comps ts
      else collect_components (comps @ [t]) ts)"
  by (cases comps) auto

lemma collect_components_weight:
  "weight (collect_components comps ts) \<le> weight comps + weight ts"
proof (induction ts arbitrary: comps)
  case Nil
  then show ?case by simp
next
  case (Cons t ts)
  have d: "weight (t # ts) = Suc (length t) + weight ts" by (simp add: weight_def)
  consider (full) "256 \<le> length comps"
    | (pop) "\<not> 256 \<le> length comps" "t = ''..''"
    | (skip) "\<not> 256 \<le> length comps" "t \<noteq> ''..''" "t = ''.'' \<or> t = []"
    | (push) "\<not> 256 \<le> length comps" "t \<noteq> ''..''" "\<not> (t = ''.'' \<or> t = [])"
    by blast
  then show ?case
  proof cases
    case full
    then show ?thesis by (simp add: collect_components_step del: collect_components.simps)
  next
    case pop
    have eq: "collect_components comps (t # ts) = collect_components (butlast comps) ts"
      using pop by (simp add: collect_components_step del: collect_components.simps)
    show ?thesis unfolding eq
      using Cons.IH [of "butlast comps"] weight_butlast [of comps] d by linarith
  next
    case skip
    have eq: "collect_components comps (t # ts) = collect_components comps ts"
      using skip by (simp add: collect_components_step del: collect_components.simps)
    show ?thesis unfolding eq using Cons.IH [of comps] d by linarith
  next
    case push
    have eq: "collect_components comps (t # ts) = collect_components (comps @ [t]) ts"
      using push by (simp add: collect_components_step del: collect_components.simps)
    have "weight (comps @ [t]) = weight comps + Suc (length t)"
      by (simp add: weight_def)
    then show ?thesis unfolding eq using Cons.IH [of "comps @ [t]"] d by linarith
  qed
qed

lemma collect_components_set:
  "set (collect_components comps ts)
   \<subseteq> set comps \<union> {t \<in> set ts. t \<noteq> ''..'' \<and> t \<noteq> ''.'' \<and> t \<noteq> []}"
proof (induction ts arbitrary: comps)
  case Nil
  then show ?case by simp
next
  case (Cons t ts)
  let ?keep = "\<lambda>ts. {t \<in> set ts. t \<noteq> ''..'' \<and> t \<noteq> ''.'' \<and> t \<noteq> []}"
  have mono: "?keep ts \<subseteq> ?keep (t # ts)" by auto
  consider (full) "256 \<le> length comps"
    | (pop) "\<not> 256 \<le> length comps" "t = ''..''"
    | (skip) "\<not> 256 \<le> length comps" "t \<noteq> ''..''" "t = ''.'' \<or> t = []"
    | (push) "\<not> 256 \<le> length comps" "t \<noteq> ''..''" "\<not> (t = ''.'' \<or> t = [])"
    by blast
  then show ?case
  proof cases
    case full
    then show ?thesis by (simp add: collect_components_step del: collect_components.simps)
  next
    case pop
    have eq: "collect_components comps (t # ts) = collect_components (butlast comps) ts"
      using pop by (simp add: collect_components_step del: collect_components.simps)
    have "set (butlast comps) \<subseteq> set comps" by (auto dest: in_set_butlastD)
    then show ?thesis unfolding eq using Cons.IH [of "butlast comps"] mono by blast
  next
    case skip
    have eq: "collect_components comps (t # ts) = collect_components comps ts"
      using skip by (simp add: collect_components_step del: collect_components.simps)
    show ?thesis unfolding eq using Cons.IH [of comps] mono by blast
  next
    case push
    have eq: "collect_components comps (t # ts) = collect_components (comps @ [t]) ts"
      using push by (simp add: collect_components_step del: collect_components.simps)
    have "set (comps @ [t]) \<subseteq> set comps \<union> ?keep (t # ts)"
      using push by auto
    then show ?thesis unfolding eq using Cons.IH [of "comps @ [t]"] mono by blast
  qed
qed

lemma collect_components_length:
  "length comps \<le> 256 \<Longrightarrow> length (collect_components comps ts) \<le> 256"
  by (induction ts arbitrary: comps) auto

lemma collect_components_plain:
  "\<forall>c\<in>set cs. plain_component c \<Longrightarrow> length comps + length cs \<le> 256 \<Longrightarrow>
   collect_components comps cs = comps @ cs"
  by (induction cs arbitrary: comps) (auto simp: plain_component_def)

lemma assemble_fits:
  "length result + weight cs < bufsize \<Longrightarrow>
   assemble bufsize result (Suc i) cs = result @ concat (map (\<lambda>d. CHR ''/'' # d) cs)"
proof (induction cs arbitrary: result i)
  case Nil
  then show ?case by simp
next
  case (Cons c cs)
  have w: "weight (c # cs) = Suc (length c) + weight cs" by (simp add: weight_def)
  have "assemble bufsize result (Suc i) (c # cs)
        = assemble bufsize (result @ CHR ''/'' # c) (Suc (Suc i)) cs"
    using Cons.prems w by (simp add: strncat_m_def Let_def)
  also have "\<dots> = (result @ CHR ''/'' # c) @ concat (map (\<lambda>d. CHR ''/'' # d) cs)"
    using Cons.prems w by (intro Cons.IH) simp
  finally show ?case by simp
qed

lemma assemble_join:
  assumes "weight cs \<le> bufsize"
  shows "assemble bufsize [] 0 cs = join_slash cs"
proof (cases cs)
  case Nil
  then show ?thesis by simp
next
  case (Cons c ds)
  have w: "Suc (length c) + weight ds \<le> bufsize" using assms Cons by (simp add: weight_def)
  have "assemble bufsize [] 0 (c # ds) = assemble bufsize c (Suc 0) ds"
    using w by (simp add: strncat_m_def Let_def)
  also have "\<dots> = c @ concat (map (\<lambda>d. CHR ''/'' # d) ds)"
    using w by (intro assemble_fits) simp
  finally show ?thesis using Cons by simp
qed

lemma length_join_slash:
  assumes "cs \<noteq> []"
  shows "Suc (length (join_slash cs)) = weight cs"
proof (cases cs)
  case Nil
  then show ?thesis using assms by simp
next
  case (Cons c ds)
  have "length (concat (map (\<lambda>d. CHR ''/'' # d) ds)) = weight ds"
    by (induction ds) (auto simp: weight_def)
  then show ?thesis using Cons by (simp add: weight_def)
qed

lemma join_slash_Nil_iff: "join_slash cs = [] \<longleftrightarrow> cs = [] \<or> cs = [[]]"
  by (cases cs) auto

lemma set_join_slash: "set (join_slash cs) \<subseteq> \<Union> (set ` set cs) \<union> {CHR ''/''}"
  by (cases cs) auto

lemma split_slash_not_Nil: "split_slash s \<noteq> []"
  by (induction s) (auto split: list.splits)

lemma split_slash_plain: "CHR ''/'' \<notin> set c \<Longrightarrow> split_slash c = [c]"
  by (induction c) auto

lemma split_slash_plain_slash:
  "CHR ''/'' \<notin> set c \<Longrightarrow> split_slash (c @ CHR ''/'' # rest) = c # split_slash rest"
  by (induction c) (auto split: list.splits simp: split_slash_not_Nil)

lemma split_slash_join:
  "\<forall>d\<in>set (c # cs). CHR ''/'' \<notin> set d \<Longrightarrow>
   split_slash (c @ concat (map (\<lambda>d. CHR ''/'' # d) cs)) = c # cs"
proof (induction cs arbitrary: c)
  case Nil
  then show ?case by (simp add: split_slash_plain)
next
  case (Cons d ds)
  have "split_slash (c @ CHR ''/'' # (d @ concat (map (\<lambda>d. CHR ''/'' # d) ds)))
        = c # split_slash (d @ concat (map (\<lambda>d. CHR ''/'' # d) ds))"
    using Cons.prems by (intro split_slash_plain_slash) auto
  also have "split_slash (d @ concat (map (\<lambda>d. CHR ''/'' # d) ds)) = d # ds"
    using Cons.prems by (intro Cons.IH) auto
  finally show ?case by simp
qed

subsection \<open>The normalised components\<close>

lemma strncpy_m_length: "length (strncpy_m s n) \<le> n"
  by (simp add: strncpy_m_def)

lemma strncpy_m_no_NUL: "CHR 0x00 \<notin> set (strncpy_m s n)"
  by (auto simp: strncpy_m_def dest: in_set_takeD set_takeWhileD)

lemma strncpy_m_id:
  assumes "CHR 0x00 \<notin> set s" "length s \<le> n"
  shows "strncpy_m s n = s"
proof -
  have tw: "takeWhile (\<lambda>c. c \<noteq> CHR 0x00) s = s"
    using assms(1) by (intro takeWhile_eq_all_conv [THEN iffD2]) auto
  show ?thesis unfolding strncpy_m_def tw using assms(2) by simp
qed

lemma unbackslash_set: "CHR 0x5C \<notin> set (map unbackslash s)"
  by (auto simp: unbackslash_def)

lemma unbackslash_NUL: "CHR 0x00 \<notin> set s \<Longrightarrow> CHR 0x00 \<notin> set (map unbackslash s)"
  by (auto simp: unbackslash_def)

lemma unbackslash_id: "CHR 0x5C \<notin> set s \<Longrightarrow> map unbackslash s = s"
  by (induction s) (auto simp: unbackslash_def)

lemma normalize_components_props:
  assumes "c \<in> set (normalize_components p)"
  shows "plain_component c" and "CHR 0x5C \<notin> set c" and "CHR 0x00 \<notin> set c"
proof -
  let ?temp = "map unbackslash (strncpy_m p (PATH_MAX - 1))"
  from assms have "c \<in> set (collect_components [] (strtok_all ?temp))"
    by (simp add: normalize_components_def)
  with collect_components_set [of "[]" "strtok_all ?temp"]
  have c: "c \<in> set (strtok_all ?temp)" "c \<noteq> ''..''" "c \<noteq> ''.''" "c \<noteq> []"
    by auto
  from strtok_all_tokens [OF c(1)]
  have t: "CHR ''/'' \<notin> set c" "set c \<subseteq> set ?temp" by auto
  show "plain_component c" using c t by (simp add: plain_component_def)
  show "CHR 0x5C \<notin> set c" using t(2) unbackslash_set by blast
  show "CHR 0x00 \<notin> set c" using t(2) unbackslash_NUL [OF strncpy_m_no_NUL] by blast
qed

lemma normalize_components_length: "length (normalize_components p) \<le> 256"
  by (simp add: normalize_components_def collect_components_length)

lemma normalize_components_weight: "weight (normalize_components p) \<le> PATH_MAX"
proof -
  let ?temp = "map unbackslash (strncpy_m p (PATH_MAX - 1))"
  have "weight (normalize_components p) \<le> weight [] + weight (strtok_all ?temp)"
    unfolding normalize_components_def by (rule collect_components_weight)
  also have "\<dots> \<le> Suc (length ?temp)"
    using weight_strtok_all [of ?temp] by (simp add: weight_def)
  also have "\<dots> \<le> PATH_MAX"
    using strncpy_m_length [of p "PATH_MAX - 1"] by (simp add: PATH_MAX_def)
  finally show ?thesis .
qed

lemma join_slash_plain_eq_Nil:
  "\<forall>c\<in>set cs. plain_component c \<Longrightarrow> join_slash cs = [] \<longleftrightarrow> cs = []"
  by (cases cs) (auto simp: plain_component_def)

lemma normalize_path_eq:
  assumes "PATH_MAX \<le> bufsize"
  shows "normalize_path p bufsize =
           (if normalize_components p = [] then ''.'' else join_slash (normalize_components p))"
proof -
  have fit: "weight (normalize_components p) \<le> bufsize"
    using normalize_components_weight [of p] assms by linarith
  have a: "assemble bufsize [] 0 (normalize_components p) = join_slash (normalize_components p)"
    by (rule assemble_join [OF fit])
  have e: "join_slash (normalize_components p) = [] \<longleftrightarrow> normalize_components p = []"
    by (rule join_slash_plain_eq_Nil) (simp add: normalize_components_props)
  have dot: "strncpy_m ''.'' (bufsize - 1) = ''.''"
    using assms by (intro strncpy_m_id) (auto simp: PATH_MAX_def)
  show ?thesis
    unfolding normalize_path_def Let_def a dot using e by simp
qed

lemma normalize_components_dot: "normalize_components ''.'' = []"
proof -
  have "strncpy_m ''.'' (PATH_MAX - 1) = ''.''"
    by (intro strncpy_m_id) (auto simp: PATH_MAX_def)
  moreover have "strtok_all ''.'' = [''.'']"
    by (rule strtok_all_plain) auto
  ultimately show ?thesis
    unfolding normalize_components_def by (simp add: unbackslash_def)
qed

lemma normalize_components_join:
  assumes plain: "\<forall>c\<in>set cs. plain_component c \<and> CHR 0x5C \<notin> set c \<and> CHR 0x00 \<notin> set c"
    and ne: "cs \<noteq> []" and len: "length cs \<le> 256" and w: "weight cs \<le> PATH_MAX"
  shows "normalize_components (join_slash cs) = cs"
proof -
  obtain c ds where cs: "cs = c # ds" using ne by (cases cs) auto
  have chars: "set (join_slash cs) \<subseteq> \<Union> (set ` set cs) \<union> {CHR ''/''}"
    by (rule set_join_slash)
  have nul: "CHR 0x00 \<notin> set (join_slash cs)" using chars plain by auto
  have bs: "CHR 0x5C \<notin> set (join_slash cs)" using chars plain by auto
  have l: "length (join_slash cs) \<le> PATH_MAX - 1"
    using length_join_slash [OF ne] w by linarith
  have t: "map unbackslash (strncpy_m (join_slash cs) (PATH_MAX - 1)) = join_slash cs"
    by (simp only: strncpy_m_id [OF nul l] unbackslash_id [OF bs])
  have "strtok_all (join_slash cs) = cs"
    unfolding cs join_slash.simps
    using plain cs by (intro strtok_all_join) (auto simp: plain_component_def)
  moreover have "collect_components [] cs = [] @ cs"
    using plain len by (intro collect_components_plain) auto
  ultimately show ?thesis
    unfolding normalize_components_def t by simp
qed

lemma normalize_path_idem:
  assumes "PATH_MAX \<le> bufsize"
  shows "normalize_path (normalize_path p bufsize) bufsize = normalize_path p bufsize"
proof (cases "normalize_components p = []")
  case True
  then show ?thesis
    by (simp add: normalize_path_eq [OF assms] normalize_components_dot)
next
  case False
  have "normalize_components (join_slash (normalize_components p)) = normalize_components p"
    using False normalize_components_length normalize_components_weight
    by (intro normalize_components_join) (auto simp: normalize_components_props)
  then show ?thesis
    using False by (simp add: normalize_path_eq [OF assms])
qed

lemma normalize_path_hd:
  assumes "PATH_MAX \<le> bufsize"
  shows "normalize_path p bufsize \<noteq> [] \<and> hd (normalize_path p bufsize) \<noteq> CHR ''/''"
proof (cases "normalize_components p")
  case Nil
  then show ?thesis by (simp add: normalize_path_eq [OF assms])
next
  case (Cons c cs)
  then have "c \<in> set (normalize_components p)" by simp
  then have "plain_component c" by (rule normalize_components_props(1))
  then obtain x xs where "c = x # xs" "x \<noteq> CHR ''/''"
    by (cases c) (auto simp: plain_component_def)
  then show ?thesis using Cons by (simp add: normalize_path_eq [OF assms])
qed

lemma normalize_path_no_backslash:
  assumes "PATH_MAX \<le> bufsize"
  shows "CHR 0x5C \<notin> set (normalize_path p bufsize)"
proof (cases "normalize_components p = []")
  case True
  then show ?thesis by (simp add: normalize_path_eq [OF assms])
next
  case False
  have "set (join_slash (normalize_components p))
        \<subseteq> \<Union> (set ` set (normalize_components p)) \<union> {CHR ''/''}"
    by (rule set_join_slash)
  then have "CHR 0x5C \<notin> set (join_slash (normalize_components p))"
    using normalize_components_props(2) by fastforce
  then show ?thesis using False by (simp add: normalize_path_eq [OF assms])
qed

lemma normalize_path_split:
  assumes "PATH_MAX \<le> bufsize" "normalize_components p \<noteq> []"
  shows "split_slash (normalize_path p bufsize) = normalize_components p"
proof -
  obtain c cs where cs: "normalize_components p = c # cs"
    using assms(2) by (cases "normalize_components p") auto
  have "\<forall>d\<in>set (c # cs). CHR ''/'' \<notin> set d"
    using normalize_components_props(1) [of _ p] cs by (auto simp: plain_component_def)
  then have "split_slash (c @ concat (map (\<lambda>d. CHR ''/'' # d) cs)) = c # cs"
    by (rule split_slash_join)
  then show ?thesis using cs by (simp add: normalize_path_eq [OF assms(1)])
qed

lemma normalize_path_shape_aux:
  assumes "PATH_MAX \<le> bufsize"
  shows "normalize_path p bufsize = ''.'' \<or>
         (\<forall>c\<in>set (split_slash (normalize_path p bufsize)). c \<noteq> [] \<and> c \<noteq> ''.'' \<and> c \<noteq> ''..'')"
proof (cases "normalize_components p = []")
  case True
  then show ?thesis by (simp add: normalize_path_eq [OF assms])
next
  case False
  show ?thesis
    using normalize_components_props(1) [of _ p]
    by (simp add: normalize_path_split [OF assms False] plain_component_def)
qed

subsection \<open>Safety of a normalised path\<close>

lemma scan_components_False: "\<not> scan_components s"
proof (induction s rule: scan_components.induct)
  case (1 start)
  show ?case
  proof (cases "CHR ''/'' \<in> set start")
    case True
    have no: "\<not> list_ex (\<lambda>c. c = CHR ''/'') (takeWhile (\<lambda>c. c \<noteq> CHR ''/'') start)"
      by (auto simp: list_ex_iff dest: set_takeWhileD)
    have "\<not> scan_components (tl (dropWhile (\<lambda>c. c \<noteq> CHR ''/'') start))"
      using "1.IH" [OF True refl refl] no by simp
    then show ?thesis
      using True no by (subst scan_components.simps) (simp add: Let_def)
  next
    case False
    then show ?thesis
      by (subst scan_components.simps) (simp add: list_ex_iff)
  qed
qed

lemma dangerous_loop_False: "\<not> dangerous_loop path ps"
  by (induction ps) (auto simp: scan_components_False)

lemma has_dangerous_chars_False: "\<not> has_dangerous_chars path"
  by (simp add: has_dangerous_chars_def dangerous_loop_False)

lemma system_paths_need_slash:
  assumes "q \<noteq> []" "hd q \<noteq> CHR ''/''"
  shows "\<not> list_ex (strncmp_prefix q) system_paths" and "\<not> denylisted q"
proof -
  obtain x xs where q: "q = x # xs" "x \<noteq> CHR ''/''" using assms by (cases q) auto
  show "\<not> list_ex (strncmp_prefix q) system_paths"
    using q by (simp add: system_paths_def strncmp_prefix_def)
  show "\<not> denylisted q"
    using q by (simp add: denylisted_def system_paths_def)
qed

lemma escapes_root_no_dotdot: "''..'' \<notin> set cs \<Longrightarrow> \<not> escapes_root depth cs"
  by (induction cs arbitrary: depth) auto

lemma normalize_path_no_escape:
  assumes "PATH_MAX \<le> bufsize"
  shows "\<not> has_escaping_dotdot (normalize_path p bufsize)"
proof (cases "normalize_components p = []")
  case True
  then show ?thesis
    by (simp add: normalize_path_eq [OF assms] has_escaping_dotdot_def)
next
  case False
  have "''..'' \<notin> set (normalize_components p)"
    using normalize_components_props(1) [of "''..''" p] by (auto simp: plain_component_def)
  then show ?thesis
    by (simp add: has_escaping_dotdot_def normalize_path_split [OF assms False]
        escapes_root_no_dotdot)
qed

lemma is_safe_path_normalized_aux:
  assumes "PATH_MAX \<le> bufsize"
  shows "(\<not> is_safe_path env (normalize_path p bufsize)) =
           (strstr_m (normalize_path p bufsize) ''../'' \<or>
            (realpath env (normalize_path p bufsize) = None \<and>
             lstat_is_link env (normalize_path p bufsize)))"
  using system_paths_need_slash(1) [of "normalize_path p bufsize"] normalize_path_hd [OF assms, of p]
  by (simp add: is_safe_path_def has_dangerous_chars_False)

subsection \<open>The code against the rule of the specification\<close>

lemma split_slash_takeWhile:
  "split_slash s = takeWhile (\<lambda>d. d \<noteq> CHR ''/'') s #
     (case dropWhile (\<lambda>d. d \<noteq> CHR ''/'') s of [] \<Rightarrow> [] | x # r \<Rightarrow> split_slash r)"
  by (induction s) (auto split: list.splits)

lemma filter_split_slash_lead:
  "filter (\<lambda>c. c \<noteq> []) (split_slash s) =
   filter (\<lambda>c. c \<noteq> []) (split_slash (dropWhile (\<lambda>c. c = CHR ''/'') s))"
  by (induction s) auto

lemma strtok_all_split_slash: "strtok_all s = filter (\<lambda>c. c \<noteq> []) (split_slash s)"
proof (induction s rule: strtok_all.induct)
  case (1 s)
  show ?case
  proof (cases "dropWhile (\<lambda>c. c = CHR ''/'') s")
    case Nil
    have "filter (\<lambda>c. c \<noteq> []) (split_slash s) = filter (\<lambda>c. c \<noteq> []) (split_slash [])"
      by (subst filter_split_slash_lead) (simp only: Nil)
    then show ?thesis by (simp add: strtok_all_none [OF Nil])
  next
    case (Cons c cs)
    let ?t = "takeWhile (\<lambda>d. d \<noteq> CHR ''/'') cs"
    let ?d = "dropWhile (\<lambda>d. d \<noteq> CHR ''/'') cs"
    have c: "c \<noteq> CHR ''/''"
      using hd_dropWhile [of "\<lambda>c. c = CHR ''/''" s] Cons by auto
    have IH: "strtok_all ?d = filter (\<lambda>c. c \<noteq> []) (split_slash ?d)"
      by (rule "1.IH" [OF Cons])
    have d: "filter (\<lambda>c. c \<noteq> []) (split_slash ?d) =
             filter (\<lambda>c. c \<noteq> []) (case ?d of [] \<Rightarrow> [] | x # r \<Rightarrow> split_slash r)"
    proof (cases ?d)
      case Nil
      show ?thesis by (simp only: Nil) simp
    next
      case (Cons e es)
      have "e = CHR ''/''"
        using hd_dropWhile [of "\<lambda>d. d \<noteq> CHR ''/''" cs] Cons by auto
      then show ?thesis using Cons by simp
    qed
    have "filter (\<lambda>c. c \<noteq> []) (split_slash s) = filter (\<lambda>c. c \<noteq> []) (split_slash (c # cs))"
      by (subst filter_split_slash_lead) (simp only: Cons)
    also have "split_slash (c # cs) = (c # ?t) # (case ?d of [] \<Rightarrow> [] | x # r \<Rightarrow> split_slash r)"
      by (subst split_slash_takeWhile) (simp add: c)
    finally have "filter (\<lambda>c. c \<noteq> []) (split_slash s) = (c # ?t) # strtok_all ?d"
      using IH d by simp
    then show ?thesis by (simp add: strtok_all_some [OF Cons])
  qed
qed

lemma collect_components_cancel_dots:
  "[] \<notin> set ts \<Longrightarrow> length comps + length ts \<le> 256 \<Longrightarrow>
   collect_components comps ts = cancel_dots comps ts"
proof (induction ts arbitrary: comps)
  case Nil
  then show ?case by simp
next
  case (Cons t ts)
  have a: "[] \<notin> set ts" and t: "t \<noteq> []" using Cons.prems(1) by auto
  have l: "length comps < 256" using Cons.prems(2) by simp
  have "length (butlast comps) + length ts \<le> 256" using Cons.prems(2) by simp
  from Cons.IH [OF a this]
  have 1: "collect_components (butlast comps) ts = cancel_dots (butlast comps) ts" .
  have "length comps + length ts \<le> 256" using Cons.prems(2) by simp
  from Cons.IH [OF a this]
  have 2: "collect_components comps ts = cancel_dots comps ts" .
  have "length (comps @ [t]) + length ts \<le> 256" using Cons.prems(2) by simp
  from Cons.IH [OF a this]
  have 3: "collect_components (comps @ [t]) ts = cancel_dots (comps @ [t]) ts" .
  show ?case using l t 1 2 3 by (auto simp: collect_components_step)
qed

lemma normalize_components_cancel_dots:
  assumes "length p < PATH_MAX" "CHR 0x00 \<notin> set p" "length (path_components p) \<le> 256"
  shows "normalize_components p = cancel_dots [] (path_components p)"
proof -
  have "strncpy_m p (PATH_MAX - 1) = p"
    using assms(1,2) by (intro strncpy_m_id) auto
  then have "normalize_components p = collect_components [] (path_components p)"
    by (simp add: normalize_components_def path_components_def strtok_all_split_slash)
  also have "\<dots> = cancel_dots [] (path_components p)"
    using assms(3) by (intro collect_components_cancel_dots) (auto simp: path_components_def)
  finally show ?thesis .
qed

lemma strtok_all_replicate:
  assumes "c \<noteq> []" "CHR ''/'' \<notin> set c"
  shows "strtok_all (concat (replicate n (c @ ''/'')) @ rest) = replicate n c @ strtok_all rest"
proof (induction n)
  case 0
  then show ?case by simp
next
  case (Suc n)
  have "strtok_all (c @ CHR ''/'' # (concat (replicate n (c @ ''/'')) @ rest))
        = c # strtok_all (concat (replicate n (c @ ''/'')) @ rest)"
    by (rule strtok_all_plain_slash [OF assms])
  then show ?case using Suc by simp
qed

lemma collect_components_replicate:
  "plain_component c \<Longrightarrow> length comps + n \<le> 256 \<Longrightarrow>
   collect_components comps (replicate n c @ rest) = collect_components (comps @ replicate n c) rest"
proof (induction n arbitrary: comps)
  case 0
  then show ?case by simp
next
  case (Suc n)
  have "length (comps @ [c]) + n \<le> 256" using Suc.prems(2) by simp
  from Suc.IH [OF Suc.prems(1) this] Suc.prems
  show ?case by (simp add: plain_component_def replicate_app_Cons_same)
qed

lemma collect_components_full:
  "256 \<le> length comps \<Longrightarrow> collect_components comps ts = comps"
  by (cases ts) (simp_all add: collect_components_step del: collect_components.simps(2))

lemma cancel_dots_replicate:
  "c \<noteq> ''.'' \<Longrightarrow> c \<noteq> ''..'' \<Longrightarrow>
   cancel_dots kept (replicate n c @ rest) = cancel_dots (kept @ replicate n c) rest"
  by (induction n arbitrary: kept) (simp_all add: replicate_app_Cons_same)

lemma cancel_dots_dotdots:
  "cancel_dots kept (replicate n ''..'') = take (length kept - n) kept"
proof (induction n arbitrary: kept)
  case 0
  then show ?case by simp
next
  case (Suc n)
  show ?case by (simp add: Suc.IH butlast_conv_take take_take min_def) 
qed

lemma many_levels_tokens:
  "strtok_all many_levels = replicate 256 ''a'' @ replicate 256 ''..''"
proof -
  have "strtok_all (concat (replicate 256 (''..'' @ ''/'')) @ []) = replicate 256 ''..'' @ strtok_all []"
    by (rule strtok_all_replicate) simp_all
  moreover have "strtok_all (concat (replicate 256 (''a'' @ ''/'')) @ concat (replicate 256 ''../''))
        = replicate 256 ''a'' @ strtok_all (concat (replicate 256 ''../''))"
    by (rule strtok_all_replicate) simp_all
  ultimately show ?thesis by (simp add: many_levels_def strtok_all_Nil)
qed

lemma many_levels_chars: "set many_levels \<subseteq> {CHR ''a'', CHR ''/'', CHR ''.''}"
  by (auto simp: many_levels_def)

lemma many_levels_length: "length many_levels = 1280"
  by (simp add: many_levels_def length_concat sum_list_replicate)

lemma many_levels_cancel: "cancel_dots [] (path_components many_levels) = []"
proof -
  have "map unbackslash many_levels = many_levels"
    using many_levels_chars by (intro unbackslash_id) auto
  then have "path_components many_levels = replicate 256 ''a'' @ replicate 256 ''..''"
    using many_levels_tokens by (simp add: path_components_def strtok_all_split_slash)
  then show ?thesis
    by (simp add: cancel_dots_replicate cancel_dots_dotdots)
qed

lemma many_levels_components: "normalize_components many_levels = replicate 256 ''a''"
proof -
  have u: "map unbackslash many_levels = many_levels"
    using many_levels_chars by (intro unbackslash_id) auto
  have "strncpy_m many_levels (PATH_MAX - 1) = many_levels"
    using many_levels_chars many_levels_length by (intro strncpy_m_id) (auto simp: PATH_MAX_def)
  then have "normalize_components many_levels =
             collect_components [] (replicate 256 ''a'' @ replicate 256 ''..'')"
    by (simp add: normalize_components_def u many_levels_tokens)
  also have "\<dots> = collect_components ([] @ replicate 256 ''a'') (replicate 256 ''..'')"
    by (rule collect_components_replicate) (simp_all add: plain_component_def)
  also have "\<dots> = replicate 256 ''a''"
    by (simp add: collect_components_full)
  finally show ?thesis .
qed

section \<open>Claims on \<open>normalize_path\<close> and \<open>is_safe_path\<close>\<close>

lemma PATH_MAX_le_4096: "PATH_MAX \<le> 4096"
  by (simp add: PATH_MAX_def)

lemma normalize_path_example_usr:
  "normalize_path ''/usr/./local/../bin'' 4096 = ''usr/bin''"
  by (simp add: normalize_path_def normalize_components_def strncpy_m_def PATH_MAX_def
      unbackslash_def strtok_all.simps strncat_m_def Let_def)

lemma normalize_path_example_plain:
  "normalize_path ''usr/bin'' 4096 = ''usr/bin''"
  by (simp add: normalize_path_def normalize_components_def strncpy_m_def PATH_MAX_def
      unbackslash_def strtok_all.simps strncat_m_def Let_def)

lemma normalize_path_example_cancel:
  "normalize_path ''/a/b/../..'' 4096 = ''.'' \<and> normalize_components ''/a/b/../..'' = []"
  by (simp add: normalize_path_def normalize_components_def strncpy_m_def PATH_MAX_def
      unbackslash_def strtok_all.simps strncat_m_def Let_def)

lemma normalize_path_example_dots:
  "normalize_path ''a../b'' 4096 = ''a../b''"
  by (simp add: normalize_path_def normalize_components_def strncpy_m_def PATH_MAX_def
      unbackslash_def strtok_all.simps strncat_m_def Let_def)

text \<open>
  With a result buffer shorter than the normalised path, \<open>strncat\<close> cuts the result, and
  the cut can leave a \<open>..\<close> that a second pass removes: the results below need a buffer
  that holds the whole result (\<open>PATH_MAX\<close> bytes always do).
\<close>

lemma normalize_path_short_buffer:
  "normalize_path ''a/..x'' 5 = ''a/..'' \<and> normalize_path ''a/..'' 5 = ''.''"
  by (simp add: normalize_path_def normalize_components_def strncpy_m_def PATH_MAX_def
      unbackslash_def strtok_all.simps strncat_m_def Let_def)

text \<open>
  C7.  Normalisation is idempotent: for every path \<open>p\<close>, normalising the result of
  \<open>normalize_path\<close> again gives the same string (the result buffer holding at least
  \<open>PATH_MAX\<close> bytes, so that nothing is cut off).
\<close>

theorem normalize_path_idempotent:
  "PATH_MAX \<le> bufsize \<Longrightarrow>
   normalize_path (normalize_path p bufsize) bufsize = normalize_path p bufsize"
  by (rule normalize_path_idem)

theorem normalize_path_idempotent_witness:
  "PATH_MAX \<le> 4096 \<and> normalize_path ''/usr/./local/../bin'' 4096 = ''usr/bin'' \<and>
   normalize_path ''usr/bin'' 4096 = ''usr/bin''"
proof -
  have "normalize_path (normalize_path ''/usr/./local/../bin'' 4096) 4096
        = normalize_path ''/usr/./local/../bin'' 4096"
    by (rule normalize_path_idempotent [OF PATH_MAX_le_4096])
  then show ?thesis
    by (simp add: normalize_path_example_usr PATH_MAX_le_4096)
qed

lemma normalize_path_dot_iff:
  assumes "PATH_MAX \<le> bufsize"
  shows "normalize_path p bufsize = ''.'' \<longleftrightarrow> normalize_components p = []"
proof (cases "normalize_components p = []")
  case True
  then show ?thesis by (simp add: normalize_path_eq [OF assms])
next
  case False
  have "normalize_path p bufsize \<noteq> ''.''"
  proof
    assume "normalize_path p bufsize = ''.''"
    then have "normalize_components p = split_slash ''.''"
      using normalize_path_split [OF assms False] by simp
    then have "''.'' \<in> set (normalize_components p)" by simp
    then show False using normalize_components_props(1) [of "''.''" p]
      by (simp add: plain_component_def)
  qed
  then show ?thesis using False by simp
qed

text \<open>
  C10, as the code has it.  With a result buffer of at least \<open>PATH_MAX\<close> bytes, the output
  of \<open>normalize_path\<close> is never empty and never begins with \<open>/\<close> (so an absolute path comes
  out relative), holds no backslash, and has no empty, \<open>.\<close> or \<open>..\<close> component unless it
  is the string \<open>.\<close> itself.  It is \<open>.\<close> exactly when the loop of the code keeps no
  component, and its components are the kept ones otherwise.  For a path of fewer than
  \<open>PATH_MAX\<close> bytes and at most 256 components, the kept components are those that the
  rule of the specification leaves: the output is \<open>.\<close> exactly when all components
  cancel out, and the remaining components joined by \<open>/\<close> otherwise.
\<close>

theorem normalize_path_shape:
  assumes "PATH_MAX \<le> bufsize"
  shows "normalize_path p bufsize \<noteq> [] \<and>
         hd (normalize_path p bufsize) \<noteq> CHR ''/'' \<and>
         CHR 0x5C \<notin> set (normalize_path p bufsize) \<and>
         (normalize_path p bufsize = ''.'' \<or>
          (\<forall>c\<in>set (split_slash (normalize_path p bufsize)). c \<noteq> [] \<and> c \<noteq> ''.'' \<and> c \<noteq> ''..'')) \<and>
         (normalize_path p bufsize = ''.'' \<longleftrightarrow> normalize_components p = []) \<and>
         (normalize_components p \<noteq> [] \<longrightarrow>
            split_slash (normalize_path p bufsize) = normalize_components p) \<and>
         (length p < PATH_MAX \<and> CHR 0x00 \<notin> set p \<and> length (path_components p) \<le> 256 \<longrightarrow>
            normalize_path p bufsize =
              (if cancel_dots [] (path_components p) = [] then ''.''
               else join_slash (cancel_dots [] (path_components p))))"
proof -
  have a: "normalize_path p bufsize \<noteq> []" "hd (normalize_path p bufsize) \<noteq> CHR ''/''"
    using normalize_path_hd [OF assms, of p] by (simp_all add: normalize_path_eq [OF assms])
  have b: "CHR 0x5C \<notin> set (normalize_path p bufsize)"
    by (rule normalize_path_no_backslash [OF assms])
  have c: "normalize_path p bufsize = ''.'' \<or>
          (\<forall>c\<in>set (split_slash (normalize_path p bufsize)). c \<noteq> [] \<and> c \<noteq> ''.'' \<and> c \<noteq> ''..'')"
    by (rule normalize_path_shape_aux [OF assms])
  have d: "normalize_path p bufsize = ''.'' \<longleftrightarrow> normalize_components p = []"
    by (rule normalize_path_dot_iff [OF assms])
  have e: "normalize_components p \<noteq> [] \<longrightarrow>
            split_slash (normalize_path p bufsize) = normalize_components p"
    using normalize_path_split [OF assms] by simp
  have f: "length p < PATH_MAX \<and> CHR 0x00 \<notin> set p \<and> length (path_components p) \<le> 256 \<longrightarrow>
            normalize_path p bufsize =
              (if cancel_dots [] (path_components p) = [] then ''.''
               else join_slash (cancel_dots [] (path_components p)))"
    using normalize_components_cancel_dots [of p] by (simp add: normalize_path_eq [OF assms])
  show ?thesis by (intro conjI a b c d e f)
qed

lemma path_components_examples:
  "path_components ''/a/b/../..'' = [''a'', ''b'', ''..'', ''..'']"
  "path_components ''/usr/./local/../bin'' = [''usr'', ''.'', ''local'', ''..'', ''bin'']"
  by (simp_all add: path_components_def unbackslash_def)

theorem normalize_path_shape_witness:
  "PATH_MAX \<le> 4096 \<and>
   cancel_dots [] (path_components ''/a/b/../..'') = [] \<and>
   normalize_path ''/a/b/../..'' 4096 = ''.'' \<and>
   cancel_dots [] (path_components ''/usr/./local/../bin'') = [''usr'', ''bin''] \<and>
   normalize_path ''/usr/./local/../bin'' 4096 = ''usr/bin'' \<and>
   split_slash (normalize_path ''/usr/./local/../bin'' 4096) = [''usr'', ''bin''] \<and>
   hd (normalize_path ''/usr/./local/../bin'' 4096) \<noteq> CHR ''/''"
  using normalize_path_shape [OF PATH_MAX_le_4096, of "''/a/b/../..''"]
    normalize_path_shape [OF PATH_MAX_le_4096, of "''/usr/./local/../bin''"]
  by (simp add: path_components_examples PATH_MAX_def)

text \<open>
  The claim as stated fails in two ways.  The loop of \<open>normalize_path\<close> ends as soon as
  256 components are kept and ignores the rest of the path: all components of
  \<open>many_levels\<close> cancel out, yet the output is its first 256 components and not \<open>.\<close>.
  And \<open>strncat\<close> cuts the output to the size of the result buffer: with 5 bytes, the
  component \<open>..x\<close> of \<open>a/..x\<close> comes out as \<open>..\<close>.
\<close>

theorem normalize_path_ignores_path_behind_256_components:
  "length many_levels < PATH_MAX \<and> CHR 0x00 \<notin> set many_levels \<and>
   cancel_dots [] (path_components many_levels) = [] \<and>
   normalize_path many_levels 4096 = join_slash (replicate 256 ''a'') \<and>
   normalize_path many_levels 4096 \<noteq> ''.'' \<and>
   normalize_path ''a/..x'' 5 = ''a/..'' \<and>
   ''..'' \<in> set (split_slash (normalize_path ''a/..x'' 5))"
proof -
  have n: "normalize_path many_levels 4096 = join_slash (replicate 256 ''a'')"
    by (simp add: normalize_path_eq [OF PATH_MAX_le_4096] many_levels_components)
  have d: "normalize_path many_levels 4096 \<noteq> ''.''"
    by (simp add: normalize_path_dot_iff [OF PATH_MAX_le_4096] many_levels_components)
  have z: "CHR 0x00 \<notin> set many_levels" using many_levels_chars by auto
  show ?thesis
    using n d z many_levels_cancel normalize_path_short_buffer
    by (simp add: many_levels_length PATH_MAX_def)
qed

text \<open>
  C1, as the code has it.  For every path \<open>p\<close>, \<open>is_safe_path\<close> rejects the normalised
  path exactly when it contains the three characters \<open>../\<close> (a component other than the
  last that ends in two dots, such as \<open>a..\<close>) or when \<open>realpath\<close> fails on it and
  \<open>lstat\<close> reports a symbolic link.  The two reasons the claim names never apply to a
  normalised path: it has no \<open>..\<close> component left and, having lost its leading \<open>/\<close>, begins
  with none of the system directories.
\<close>

theorem is_safe_path_normalized:
  assumes "PATH_MAX \<le> bufsize"
  shows "(\<not> is_safe_path env (normalize_path p bufsize)) =
           (strstr_m (normalize_path p bufsize) ''../'' \<or>
            (realpath env (normalize_path p bufsize) = None \<and>
             lstat_is_link env (normalize_path p bufsize))) \<and>
         \<not> has_escaping_dotdot (normalize_path p bufsize) \<and>
         \<not> denylisted (normalize_path p bufsize)"
  using is_safe_path_normalized_aux [OF assms, of env p] normalize_path_no_escape [OF assms, of p]
    system_paths_need_slash(2) [of "normalize_path p bufsize"] normalize_path_hd [OF assms, of p]
  by simp

theorem is_safe_path_normalized_witness:
  "PATH_MAX \<le> 4096 \<and> normalize_path ''/usr/./local/../bin'' 4096 = ''usr/bin'' \<and>
   is_safe_path no_files ''usr/bin'' \<and> \<not> strstr_m ''usr/bin'' ''../'' \<and>
   \<not> has_escaping_dotdot ''usr/bin'' \<and> \<not> denylisted ''usr/bin''"
  using is_safe_path_normalized [OF PATH_MAX_le_4096, of no_files "''/usr/./local/../bin''"]
  by (simp add: normalize_path_example_usr PATH_MAX_le_4096 lstat_is_link_def no_files_def)

text \<open>
  The claim as stated fails at \<open>a../b\<close>: the path is its own normal form, it neither
  escapes its root nor begins with a system directory, and \<open>is_safe_path\<close> rejects it
  (\<open>strstr\<close> finds \<open>../\<close> inside the component \<open>a..\<close>), whatever the file system holds.
\<close>

theorem is_safe_path_rejects_plain_component:
  "normalize_path ''a../b'' 4096 = ''a../b'' \<and>
   \<not> is_safe_path no_files (normalize_path ''a../b'' 4096) \<and>
   \<not> has_escaping_dotdot (normalize_path ''a../b'' 4096) \<and>
   \<not> denylisted (normalize_path ''a../b'' 4096)"
  by (simp add: normalize_path_example_dots is_safe_path_def has_escaping_dotdot_def
      denylisted_def system_paths_def)

section \<open>Results on the directory listing\<close>






















section \<open>Results on \<open>mkdir\<close>\<close>

subsection \<open>Looking a path up\<close>

lemma sys_lstat_Some:
  "fst (sys_lstat w path) = Some node \<longleftrightarrow>
   (\<exists>p. resolve w path = Inr p \<and> lookup (fs w) p = Some node)"
  by (auto simp: sys_lstat_def split: sum.splits option.splits)

lemma sys_lstat_Some_state: "fst (sys_lstat w path) = Some node \<Longrightarrow> snd (sys_lstat w path) = w"
  by (auto simp: sys_lstat_def split: sum.splits option.splits)

lemma sys_mkdir_exists:
  assumes "fst (sys_lstat w path) = Some node"
  shows "sys_mkdir w path = (False, fail EEXIST w)"
proof -
  obtain p where p: "resolve w path = Inr p" "lookup (fs w) p = Some node"
    using assms sys_lstat_Some by blast
  then have "new_node_path w path = Inl EEXIST" by (simp add: new_node_path_def)
  then show ?thesis by (simp add: sys_mkdir_def)
qed

lemma extends_refl: "extends w w"
  by (simp add: extends_def)

lemma extends_trans: "extends w w' \<Longrightarrow> extends w' w'' \<Longrightarrow> extends w w''"
  by (simp add: extends_def)

lemma extends_fail: "extends w (fail e w)"
  by (simp add: extends_def fail_def)

lemma sys_mkdir_extends: "extends w (snd (sys_mkdir w path))"
proof (cases "new_node_path w path")
  case (Inl e)
  then show ?thesis by (simp add: sys_mkdir_def extends_fail)
next
  case (Inr p)
  then have "lookup (fs w) p = None"
    by (auto simp: new_node_path_def split: sum.splits if_splits option.splits node.splits)
  then have "p \<noteq> []" "map_of (fs w) p = None" by (auto simp: lookup_def split: if_splits)
  then show ?thesis using Inr
    by (auto simp: sys_mkdir_def extends_def lookup_def)
qed

lemma mkdir_prefixes_extends: "extends w (snd (mkdir_prefixes w path ps))"
proof (induction ps arbitrary: w)
  case Nil
  then show ?case by (simp add: extends_refl)
next
  case (Cons pos ps)
  show ?case
  proof (cases "take pos path = []")
    case True
    then show ?thesis using Cons [of w] by simp
  next
    case False
    obtain ok w' where m: "sys_mkdir w (take pos path) = (ok, w')"
      by (cases "sys_mkdir w (take pos path)")
    have e: "extends w w'" using sys_mkdir_extends [of w "take pos path"] m by simp
    show ?thesis
    proof (cases "\<not> ok \<and> errno w' \<noteq> EEXIST")
      case True
      then show ?thesis using False m e by (simp add: Let_def)
    next
      case stop: False
      have "extends w' (snd (mkdir_prefixes w' path ps))" by (rule Cons)
      then have "extends w (snd (mkdir_prefixes w' path ps))" using e extends_trans by blast
      then show ?thesis using False m stop by (auto simp: Let_def)
    qed
  qed
qed

lemma namei_extends:
  assumes "\<forall>k n. lookup nodes k = Some n \<longrightarrow> lookup nodes' k = Some n"
  shows "namei nodes cur cs = Inr p \<Longrightarrow> namei nodes' cur cs = Inr p"
proof (induction cs arbitrary: cur)
  case Nil
  then show ?case by simp
next
  case (Cons c cs)
  from Cons.prems have d: "lookup nodes cur = Some Dir"
    by (auto split: option.splits node.splits)
  then have d': "lookup nodes' cur = Some Dir" using assms by simp
  show ?case using Cons.prems Cons.IH d d' by (auto split: if_splits)
qed

lemma sys_lstat_extends:
  assumes "extends w w'" "fst (sys_lstat w path) = Some node"
  shows "fst (sys_lstat w' path) = Some node"
proof -
  obtain p where p: "resolve w path = Inr p" "lookup (fs w) p = Some node"
    using assms(2) sys_lstat_Some by blast
  have "resolve w' path = Inr p"
    using p(1) assms(1) namei_extends [of "fs w" "fs w'"]
    by (auto simp: resolve_def resolve_from_def extends_def split: list.splits)
  moreover have "lookup (fs w') p = Some node" using p(2) assms(1) by (simp add: extends_def)
  ultimately show ?thesis using sys_lstat_Some by blast
qed

lemma mkdir_recursive_exists:
  assumes "fst (sys_lstat w path) = Some node"
  shows "\<exists>w'. mkdir_recursive w path = (False, w') \<and> fst (sys_lstat w' path) = Some node"
proof -
  obtain ok w1 where m: "mkdir_prefixes w path (slash_positions path) = (ok, w1)"
    by (cases "mkdir_prefixes w path (slash_positions path)")
  have e: "extends w w1" using mkdir_prefixes_extends [of w path "slash_positions path"] m by simp
  have l1: "fst (sys_lstat w1 path) = Some node" by (rule sys_lstat_extends [OF e assms])
  show ?thesis
  proof (cases ok)
    case False
    then show ?thesis using m l1 by (simp add: mkdir_recursive_def)
  next
    case True
    have "sys_mkdir w1 path = (False, fail EEXIST w1)" by (rule sys_mkdir_exists [OF l1])
    moreover have "fst (sys_lstat (fail EEXIST w1) path) = Some node"
      by (rule sys_lstat_extends [OF extends_fail l1])
    ultimately show ?thesis using m True by (simp add: mkdir_recursive_def)
  qed
qed

lemma create_directory_exists_plain:
  assumes "fst (sys_lstat w (get_absolute_path current_path dir_name)) = Some node"
    and "\<not> (opts \<noteq> [] \<and> hd opts = ''-p'')"
  shows "create_directory current_path w (dir_name # opts) =
           (json_error ''Failed to create directory: File exists'', fail EEXIST w)"
  using assms(2) sys_mkdir_exists [OF assms(1)]
  by (auto simp: create_directory_def Let_def fail_def)

lemma create_directory_exists:
  assumes "fst (sys_lstat w (get_absolute_path current_path dir_name)) = Some node"
  shows "\<exists>w'. create_directory current_path w (dir_name # opts) =
              (json_error (''Failed to create directory: '' @ strerror (errno w')), w') \<and>
           fst (sys_lstat w' (get_absolute_path current_path dir_name)) = Some node"
proof (cases "opts \<noteq> [] \<and> hd opts = ''-p''")
  case True
  obtain w' where "mkdir_recursive w (get_absolute_path current_path dir_name) = (False, w')"
    "fst (sys_lstat w' (get_absolute_path current_path dir_name)) = Some node"
    using mkdir_recursive_exists [OF assms] by blast
  then show ?thesis using True by (simp add: create_directory_def Let_def)
next
  case False
  have "fst (sys_lstat (fail EEXIST w) (get_absolute_path current_path dir_name)) = Some node"
    by (rule sys_lstat_extends [OF extends_fail assms])
  then show ?thesis
    using create_directory_exists_plain [OF assms False]
    by (intro exI [of _ "fail EEXIST w"]) (simp add: fail_def)
qed

lemma link_world_d: "fst (sys_lstat link_world ''/d'') = Some Dir"
  by code_simp

lemma link_world_f: "fst (sys_lstat link_world ''/d/f'') = Some (File ''hi'')"
  by code_simp

text \<open>
  C3, as the code has it.  Where a directory already exists, \<open>mkdir\<close> without the parents
  option fails with \<open>EEXIST\<close> (the error object says \<open>File exists\<close>) and changes no node.
  Where a node that is not a directory exists, \<open>mkdir\<close> fails whatever options follow
  the path, and the node stays.
\<close>

theorem create_directory_on_existing_node:
  assumes "fst (sys_lstat w (get_absolute_path current_path dir_name)) = Some node"
  shows "(node = Dir \<longrightarrow>
            create_directory current_path w [dir_name] =
              (json_error ''Failed to create directory: File exists'', w\<lparr>errno := EEXIST\<rparr>)) \<and>
         (node \<noteq> Dir \<longrightarrow>
            (\<exists>w'. create_directory current_path w (dir_name # opts) =
                     (json_error (''Failed to create directory: '' @ strerror (errno w')), w') \<and>
                   fst (sys_lstat w' (get_absolute_path current_path dir_name)) = Some node))"
  using create_directory_exists_plain [OF assms, of "[]"] create_directory_exists [OF assms, of opts]
  by (simp add: fail_def)

theorem create_directory_on_existing_node_witness:
  "fst (sys_lstat link_world (get_absolute_path ''/'' ''/d'')) = Some Dir \<and>
   create_directory ''/'' link_world [''/d''] =
     (json_error ''Failed to create directory: File exists'', link_world\<lparr>errno := EEXIST\<rparr>) \<and>
   fst (sys_lstat link_world (get_absolute_path ''/'' ''/d/f'')) = Some (File ''hi'') \<and>
   (\<exists>w'. create_directory ''/'' link_world [''/d/f'', ''-p''] =
            (json_error (''Failed to create directory: '' @ strerror (errno w')), w'))"
proof -
  have d: "fst (sys_lstat link_world (get_absolute_path ''/'' ''/d'')) = Some Dir"
    using link_world_d by (simp add: get_absolute_path_def)
  have f: "fst (sys_lstat link_world (get_absolute_path ''/'' ''/d/f'')) = Some (File ''hi'')"
    using link_world_f by (simp add: get_absolute_path_def)
  have "create_directory ''/'' link_world [''/d''] =
     (json_error ''Failed to create directory: File exists'', link_world\<lparr>errno := EEXIST\<rparr>)"
    using create_directory_on_existing_node [OF d] by simp
  moreover have "\<exists>w'. create_directory ''/'' link_world [''/d/f'', ''-p''] =
            (json_error (''Failed to create directory: '' @ strerror (errno w')), w')"
    using create_directory_on_existing_node [OF f, of "[''-p'']"] by auto
  ultimately show ?thesis using d f by simp
qed

text \<open>
  The claim as stated fails: \<open>/d\<close> is a directory, and \<open>mkdir\<close> on it returns an error
  object, without and with the parents option.  (With \<open>-p\<close>, \<open>mkdir_recursive\<close> accepts
  \<open>EEXIST\<close> for every prefix of the path but returns the result of the last \<open>mkdir\<close> as it
  is.)
\<close>

theorem create_directory_existing_directory_fails:
  "fst (sys_lstat link_world ''/d'') = Some Dir \<and>
   fst (create_directory ''/'' link_world [''/d'']) =
     json_error ''Failed to create directory: File exists'' \<and>
   fst (create_directory ''/'' link_world [''/d'', ''-p'']) =
     json_error ''Failed to create directory: File exists''"
  by code_simp

section \<open>Results on copying a symbolic link\<close>

text \<open>
  C2.  A copy whose source is a symbolic link makes a symbolic link with the same target
  at the destination and does not copy the content of the file behind the link.
  \<open>n8n_copy_file\<close> does so; \<open>copy_item\<close> of the navigator does not: it tests the source
  for a directory only and then opens it with \<open>open\<close>, which follows the link.  In the state
  \<open>link_world\<close>, copying the link \<open>/d/l\<close> (target \<open>/d/f\<close>, a file holding \<open>hi\<close>) to \<open>/d/c\<close>
  reports success and leaves a regular file \<open>/d/c\<close> holding \<open>hi\<close>.
\<close>

theorem copy_item_copies_link_target:
  "fst (sys_lstat link_world ''/d/l'') = Some (Symlink ''/d/f'') \<and>
   copy_item 3 ''/'' link_world [''/d/l'', ''/d/c''] =
     Some (json_success2 ''source'' ''/d/l'' ''destination'' ''/d/c'',
           link_world\<lparr>fs := fs link_world @ [([''d'', ''c''], File ''hi'')], disk_free := 998\<rparr>) \<and>
   success (fst (n8n_copy_file link_world ''/d/l'' ''/d/c'' default_options)) \<and>
   fs (snd (n8n_copy_file link_world ''/d/l'' ''/d/c'' default_options)) =
     fs link_world @ [([''d'', ''c''], Symlink ''/d/f'')]"
  by code_simp

section \<open>Results on the batch copy\<close>

lemma batch_loop_upt:
  assumes "length results = n" "k + m = n"
    and "batch_loop (state_before w s d opts k) s d opts [k..<n] results sc fc = (res', sc', fc', w')"
  shows "w' = state_before w s d opts n \<and> sc' + fc' = sc + fc + m \<and> length res' = n \<and>
         sc' = sc + length (filter (pair_succeeds w s d opts) [k..<n]) \<and>
         (\<forall>i<n. res' ! i = (if k \<le> i then (if pair_succeeds w s d opts i then 1 else 0)
                            else results ! i))"
  using assms
proof (induction m arbitrary: k results sc fc)
  case 0
  then show ?case by simp
next
  case (Suc m)
  have kn: "k < n" using Suc.prems(2) by simp
  have upt: "[k..<n] = k # [Suc k..<n]" using kn by (simp add: upt_conv_Cons)
  obtain r wk where c: "n8n_copy_file (state_before w s d opts k) (s ! k) (d ! k) opts = (r, wk)"
    by (cases "n8n_copy_file (state_before w s d opts k) (s ! k) (d ! k) opts")
  have wk: "wk = state_before w s d opts (Suc k)" using c by simp
  have ok: "success r = pair_succeeds w s d opts k" using c by (simp add: pair_succeeds_def)
  let ?results = "results[k := (if success r then 1 else 0)]"
  let ?sc = "if success r then Suc sc else sc"
  let ?fc = "if success r then fc else Suc fc"
  have step: "batch_loop (state_before w s d opts (Suc k)) s d opts [Suc k..<n] ?results ?sc ?fc
              = (res', sc', fc', w')"
    using Suc.prems(3) unfolding upt by (simp add: c wk [symmetric])
  have IH: "w' = state_before w s d opts n \<and> sc' + fc' = ?sc + ?fc + m \<and> length res' = n \<and>
         sc' = ?sc + length (filter (pair_succeeds w s d opts) [Suc k..<n]) \<and>
         (\<forall>i<n. res' ! i = (if Suc k \<le> i then (if pair_succeeds w s d opts i then 1 else 0)
                            else ?results ! i))"
    using Suc.prems(1,2) by (intro Suc.IH [OF _ _ step]) auto
  have a: "sc' + fc' = sc + fc + Suc m" using IH by (auto split: if_splits)
  have b: "sc' = sc + length (filter (pair_succeeds w s d opts) [k..<n])"
    using IH ok unfolding upt by (auto split: if_splits)
  have e: "\<forall>i<n. res' ! i = (if k \<le> i then (if pair_succeeds w s d opts i then 1 else 0)
                            else results ! i)"
  proof (intro allI impI)
    fix i assume i: "i < n"
    show "res' ! i = (if k \<le> i then (if pair_succeeds w s d opts i then 1 else 0) else results ! i)"
    proof (cases "i = k")
      case True
      then show ?thesis using IH i ok Suc.prems(1) by simp
    next
      case False
      then show ?thesis using IH i by (auto simp: nth_list_update)
    qed
  qed
  show ?case using IH a b e by blast
qed

text \<open>
  C5.  For every list of \<open>N\<close> source/destination pairs (the result array being allocated),
  \<open>n8n_batch_copy\<close> calls \<open>n8n_copy_file\<close> on every pair, in order, each in the state the
  pairs before it have left, whether they failed or not: entry \<open>i\<close> of the result array
  is 1 or 0 as the copy of pair \<open>i\<close> succeeds or fails; the two counts in the message are
  the number of pairs that succeed and the number that fail, and they add up to \<open>N\<close>.
\<close>

theorem n8n_batch_copy_counts:
  assumes "n * 4 \<le> heap_free w"
  shows "\<exists>successCount failCount.
           successCount + failCount = n \<and>
           successCount = length (filter (pair_succeeds w sources destinations options) [0..<n]) \<and>
           failCount = length (filter (\<lambda>i. \<not> pair_succeeds w sources destinations options i) [0..<n]) \<and>
           n8n_batch_copy w sources destinations n options =
             (\<lparr> success = True,
                message = ''Batch copy completed: '' @ to_string successCount
                          @ '' succeeded, '' @ to_string failCount @ '' failed'',
                errorCode = 0,
                result_data = map (\<lambda>i. if pair_succeeds w sources destinations options i then 1 else 0)
                                [0..<n] \<rparr>,
              state_before w sources destinations options n)"
proof -
  obtain res sc fc w' where
    l: "batch_loop w sources destinations options [0..<n] (replicate n 0) 0 0 = (res, sc, fc, w')"
    by (metis prod_cases4)
  have l0: "batch_loop (state_before w sources destinations options 0) sources destinations options
              [0..<n] (replicate n 0) 0 0 = (res, sc, fc, w')"
    using l by simp
  have p: "w' = state_before w sources destinations options n \<and> sc + fc = 0 + 0 + n \<and>
      length res = n \<and>
      sc = 0 + length (filter (pair_succeeds w sources destinations options) [0..<n]) \<and>
      (\<forall>i<n. res ! i = (if 0 \<le> i then (if pair_succeeds w sources destinations options i then 1 else 0)
                         else replicate n 0 ! i))"
    by (rule batch_loop_upt [OF _ _ l0]) simp_all
  have res: "res = map (\<lambda>i. if pair_succeeds w sources destinations options i then 1 else 0) [0..<n]"
    using p by (intro nth_equalityI) auto
  have "length (filter (pair_succeeds w sources destinations options) [0..<n])
        + length (filter (\<lambda>i. \<not> pair_succeeds w sources destinations options i) [0..<n])
        = length [0..<n]"
    by (rule sum_length_filter_compl)
  then have fc: "fc = length (filter (\<lambda>i. \<not> pair_succeeds w sources destinations options i) [0..<n])"
    using p by simp
  have "n8n_batch_copy w sources destinations n options =
             (\<lparr> success = True,
                message = ''Batch copy completed: '' @ to_string sc
                          @ '' succeeded, '' @ to_string fc @ '' failed'',
                errorCode = 0,
                result_data = res \<rparr>, w')"
    using assms l by (simp add: n8n_batch_copy_def result0_def)
  then show ?thesis using p res fc by auto
qed

lemma batch_world_run:
  "n8n_batch_copy batch_world [''/s1'', ''/s2'', ''/s3'', ''/s4'', ''/s5'']
     [''/t1'', ''/t2'', ''/t3'', ''/t4'', ''/t5''] 5 default_options =
   (\<lparr> success = True, message = ''Batch copy completed: 4 succeeded, 1 failed'',
      errorCode = 0, result_data = [1, 1, 0, 1, 1] \<rparr>,
    batch_world
      \<lparr> fs := fs batch_world @ [([''t1''], File ''one''), ([''t2''], File ''two''),
                                ([''t4''], File ''four''), ([''t5''], File ''five'')],
        errno := ENOENT, disk_free := 4082 \<rparr>)"
  by code_simp

theorem n8n_batch_copy_counts_witness:
  "5 * 4 \<le> heap_free batch_world \<and>
   (\<exists>successCount failCount.
      successCount + failCount = (5::nat) \<and>
      n8n_batch_copy batch_world [''/s1'', ''/s2'', ''/s3'', ''/s4'', ''/s5'']
        [''/t1'', ''/t2'', ''/t3'', ''/t4'', ''/t5''] 5 default_options =
      (\<lparr> success = True,
         message = ''Batch copy completed: '' @ to_string successCount
                   @ '' succeeded, '' @ to_string failCount @ '' failed'',
         errorCode = 0, result_data = [1, 1, 0, 1, 1] \<rparr>,
       batch_world
         \<lparr> fs := fs batch_world @ [([''t1''], File ''one''), ([''t2''], File ''two''),
                                   ([''t4''], File ''four''), ([''t5''], File ''five'')],
           errno := ENOENT, disk_free := 4082 \<rparr>))"
proof -
  have h: "5 * 4 \<le> heap_free batch_world" by (simp add: batch_world_def)
  from n8n_batch_copy_counts [OF h, of "[''/s1'', ''/s2'', ''/s3'', ''/s4'', ''/s5'']"
      "[''/t1'', ''/t2'', ''/t3'', ''/t4'', ''/t5'']" default_options]
  obtain sc fc where
    s: "sc + fc = 5"
    and r: "n8n_batch_copy batch_world [''/s1'', ''/s2'', ''/s3'', ''/s4'', ''/s5'']
        [''/t1'', ''/t2'', ''/t3'', ''/t4'', ''/t5''] 5 default_options =
      (\<lparr> success = True,
         message = ''Batch copy completed: '' @ to_string sc
                   @ '' succeeded, '' @ to_string fc @ '' failed'',
         errorCode = 0,
         result_data = map (\<lambda>i. if pair_succeeds batch_world [''/s1'', ''/s2'', ''/s3'', ''/s4'', ''/s5'']
              [''/t1'', ''/t2'', ''/t3'', ''/t4'', ''/t5''] default_options i then 1 else 0) [0..<5] \<rparr>,
       state_before batch_world [''/s1'', ''/s2'', ''/s3'', ''/s4'', ''/s5'']
              [''/t1'', ''/t2'', ''/t3'', ''/t4'', ''/t5''] default_options 5)"
    by (elim exE conjE)
  have d: "map (\<lambda>i. if pair_succeeds batch_world [''/s1'', ''/s2'', ''/s3'', ''/s4'', ''/s5'']
              [''/t1'', ''/t2'', ''/t3'', ''/t4'', ''/t5''] default_options i then 1 else 0) [0..<5]
        = [1, 1, 0, 1, 1::int]"
    and st: "state_before batch_world [''/s1'', ''/s2'', ''/s3'', ''/s4'', ''/s5'']
              [''/t1'', ''/t2'', ''/t3'', ''/t4'', ''/t5''] default_options 5 =
       batch_world
         \<lparr> fs := fs batch_world @ [([''t1''], File ''one''), ([''t2''], File ''two''),
                                   ([''t4''], File ''four''), ([''t5''], File ''five'')],
           errno := ENOENT, disk_free := 4082 \<rparr>"
    using r unfolding batch_world_run by simp_all
  show ?thesis
    by (intro conjI h exI [of _ sc] exI [of _ fc] s) (simp only: r d st)
qed

section \<open>Results on \<open>delete\<close>\<close>

subsection \<open>Paths of directory entries\<close>



lemma strtok_all_slash_name:
  assumes n: "n \<noteq> []" "CHR ''/'' \<notin> set n"
  shows "strtok_all (CHR ''/'' # n) = [n]"
proof -
  obtain x xs where x: "n = x # xs" "x \<noteq> CHR ''/''" using n by (cases n) auto
  have e1: "dropWhile (\<lambda>c. c = CHR ''/'') (CHR ''/'' # n) = x # xs" using x by simp
  have e2: "dropWhile (\<lambda>c. c = CHR ''/'') n = x # xs" using x by simp
  have "strtok_all (CHR ''/'' # n) = strtok_all n"
    by (simp only: strtok_all_some [OF e1] strtok_all_some [OF e2])
  then show ?thesis using strtok_all_plain [OF n] by simp
qed



subsection \<open>Well-formed file systems\<close>









subsection \<open>Removing nodes\<close>










subsection \<open>System calls on an entry of a directory\<close>







subsection \<open>Lists of removals\<close>



subsection \<open>Recursive deletion\<close>
















subsection \<open>The claim on \<open>delete\<close>\<close>




section \<open>Claim on the exit code\<close>



subsection \<open>The objects returned\<close>











subsection \<open>What a success object of \<open>mkdir\<close> and \<open>delete\<close> implies\<close>














subsection \<open>The exit code\<close>







end
